theory Spec2Isabelle
  imports Main "HOL-Library.Word"
begin

unbundle bit_operations_syntax

section \<open>The failover controller of \<^verbatim>\<open>ec2_controller.py\<close>\<close>

text \<open>
  The controller is one Python file. Every function of it talks to the EC2 API through
  \<^verbatim>\<open>boto3\<close>, starts \<^verbatim>\<open>ping\<close> as a subprocess, reads a template file or sleeps.
  The embedding makes this explicit: a \<open>world\<close> holds the provider's resources and the
  rest of the environment, every function takes the world last and returns the new one,
  and every raised exception is an \<open>Inl\<close> result. The world also keeps a trace of the
  calls made on the environment, in order, so that statements about which calls happen
  (and in which order) are statements about a list.
\<close>

subsection \<open>Exceptions\<close>

datatype error =
    ClientError string          \<comment> \<open>\<^verbatim>\<open>botocore.exceptions.ClientError\<close> with its error code\<close>
  | WaiterError string          \<comment> \<open>\<^verbatim>\<open>botocore.exceptions.WaiterError\<close>\<close>
  | IndexError                  \<comment> \<open>\<^verbatim>\<open>xs[0]\<close> on an empty list\<close>
  | KeyError string             \<comment> \<open>\<^verbatim>\<open>d[key]\<close> on a dict without the key\<close>
  | TypeError                   \<comment> \<open>\<^verbatim>\<open>None['subnet_id']\<close>\<close>
  | ValueError                  \<comment> \<open>\<^verbatim>\<open>ipaddress\<close> refusing a network or an address\<close>
  | FileNotFoundError string    \<comment> \<open>\<^verbatim>\<open>open(template_file)\<close>\<close>
  | ConnectionError string      \<comment> \<open>\<^verbatim>\<open>botocore\<close> failing to reach the endpoint\<close>
  | PyException string          \<comment> \<open>\<^verbatim>\<open>raise Exception(message)\<close>\<close>

subsection \<open>The provider's resources, as the API describes them\<close>

text \<open>
  An instance as \<^verbatim>\<open>describe_instances\<close> returns it. A key of the response that
  \<^verbatim>\<open>get_instance_info\<close> reads may be missing (the function reads
  \<^verbatim>\<open>PrivateIpAddress\<close> with \<^verbatim>\<open>.get\<close> and the others with a subscript, which raises
  \<^verbatim>\<open>KeyError\<close>), so each is an option. \<open>i_AvailabilityZone\<close> is
  \<^verbatim>\<open>instance['Placement']['AvailabilityZone']\<close>, \<open>i_State\<close> is
  \<^verbatim>\<open>instance['State']['Name']\<close>, \<open>i_NetworkInterfaces\<close> holds the
  \<^verbatim>\<open>NetworkInterfaceId\<close> of each interface.
\<close>

record instance_desc =
  i_PrivateIpAddress :: "string option"
  i_AvailabilityZone :: "string option"
  i_State :: "string option"
  i_ImageId :: "string option"
  i_InstanceType :: "string option"
  i_SubnetId :: "string option"
  i_NetworkInterfaces :: "string list"

text \<open>
  A CIDR block, parsed: the address as a 32-bit word and the prefix length. The source
  holds it as text and parses it with \<^verbatim>\<open>ipaddress.IPv4Network\<close>.
\<close>

record ipv4_cidr =
  cidr_address :: "32 word"
  cidr_prefixlen :: nat

record subnet =
  s_SubnetId :: string
  s_VpcId :: string
  s_AvailabilityZone :: string
  s_CidrBlock :: ipv4_cidr

datatype route_target = ToInstance string | ToGateway string

record route =
  r_DestinationCidrBlock :: string
  r_Target :: route_target

record route_table =
  rt_RouteTableId :: string
  rt_VpcId :: string
  rt_Routes :: "route list"

text \<open>What \<^verbatim>\<open>run_instances\<close> hands out for a new instance: the provider chooses it.\<close>

record allocation =
  new_InstanceId :: string
  new_NetworkInterfaceId :: string
  new_PrivateIpAddress :: string

subsection \<open>The calls on the environment\<close>

datatype aws_filter =
    VpcIdFilter "string list"               \<comment> \<open>\<^verbatim>\<open>{'Name': 'vpc-id', 'Values': [...]}\<close>\<close>
  | AvailabilityZoneFilter "string list"    \<comment> \<open>\<^verbatim>\<open>{'Name': 'availability-zone', 'Values': [...]}\<close>\<close>

text \<open>
  The rendered bootstrap payload: the template's text with the two values of the
  context, \<^verbatim>\<open>AZ_SUBNET_DEF_ROUTE\<close> (the gateway address; the source passes its dotted
  text) and \<^verbatim>\<open>ROUTE_DESTINATION\<close>. The Jinja2 renderer itself is not part of the
  repository, so the payload is kept in this symbolic form.
\<close>

datatype user_data = Rendered string "32 word" string

record run_params =
  rp_ImageId :: string
  rp_MinCount :: nat
  rp_MaxCount :: nat
  rp_InstanceType :: string
  rp_KeyName :: string
  rp_SecurityGroupIds :: "string list"
  rp_SubnetId :: string
  rp_UserData :: user_data
  rp_NameTag :: string

datatype api_call =
    DescribeInstances "string list"
  | DescribeSubnets "string list" "aws_filter list"
  | DescribeRouteTables "aws_filter list"
  | DescribeAvailabilityZones
  | RunInstances run_params
  | WaitInstanceRunning "string list"
  | WaitInstanceStatusOk "string list"
  | ModifyNetworkInterfaceAttribute string bool    \<comment> \<open>interface, \<^verbatim>\<open>SourceDestCheck\<close> value\<close>
  | DeleteRoute string string                      \<comment> \<open>route table, destination CIDR\<close>
  | CreateRoute string string string               \<comment> \<open>route table, destination CIDR, instance\<close>
  | TerminateInstances "string list"

text \<open>The lines the controller prints that the statements below refer to.\<close>

datatype reason = NotFound | NotRunning string | Unreachable

datatype message =
    StatusNotFound string
  | StatusState string string
  | StatusRunning string "string option" string bool
  | LaunchingReplacement reason
  | NoSubnetsRetry
  | NoOtherAZsRetry
  | LaunchingInAZ string
  | ErrorExit error

datatype proc_result = Exited int | TimeoutExpired | LaunchFailed

datatype event =
    Api api_call bool          \<comment> \<open>an API call and whether it returned (\<open>True\<close>) or raised\<close>
  | Subprocess "string list" nat   \<comment> \<open>\<^verbatim>\<open>subprocess.run(argv, timeout=...)\<close>\<close>
  | Sleep nat                  \<comment> \<open>\<^verbatim>\<open>time.sleep(seconds)\<close>\<close>
  | Stdout message

subsection \<open>The world\<close>

text \<open>
  \<open>fault\<close> is the provider's refusal of a call whatever the resources are (a missing
  permission, an endpoint that cannot be reached): a call it maps to \<open>Some e\<close> raises
  \<open>e\<close> and changes nothing. The policy is a fixed part of the world, so the outcome
  of a call is a function of the call, the resources and the policy.
  \<open>ping_result\<close> is what the probe of an address gives,
  \<open>files\<close> the file system, \<open>allocations\<close> the identifiers the provider hands out
  on the next launches, \<open>randoms\<close> the values \<^verbatim>\<open>random.randint\<close> draws from.
\<close>

record world =
  instances :: "(string \<times> instance_desc) list"
  subnets :: "subnet list"
  route_tables :: "route_table list"
  availability_zones :: "string list"
  source_dest_check :: "(string \<times> bool) list"
  allocations :: "allocation list"
  fault :: "api_call \<Rightarrow> error option"
  ping_result :: "string \<Rightarrow> proc_result"
  files :: "string \<Rightarrow> string option"
  randoms :: "nat list"
  trace :: "event list"

type_synonym 'a result = "(error + 'a) \<times> world"

definition emit :: "event \<Rightarrow> world \<Rightarrow> world" where
  "emit e w = w\<lparr>trace := trace w @ [e]\<rparr>"

definition then_do :: "'a result \<Rightarrow> ('a \<Rightarrow> world \<Rightarrow> 'b result) \<Rightarrow> 'b result" where
  "then_do m f = (case m of (Inl e, w) \<Rightarrow> (Inl e, w) | (Inr x, w) \<Rightarrow> f x w)"

definition raises :: "api_call \<Rightarrow> error \<Rightarrow> world \<Rightarrow> 'a result" where
  "raises c e w = (Inl e, emit (Api c False) w)"

definition returns :: "api_call \<Rightarrow> 'a \<Rightarrow> world \<Rightarrow> 'a result" where
  "returns c x w = (Inr x, emit (Api c True) w)"

definition sleep :: "nat \<Rightarrow> world \<Rightarrow> world" where
  "sleep n w = emit (Sleep n) w"

subsection \<open>The EC2 API, as the controller uses it\<close>

text \<open>
  Modelled from the spec: the CloudProvider capability of its section 6 (the
  \<^verbatim>\<open>boto3\<close> EC2 client, which is a library and not code of the repository). This holds
  for every definition of this subsection. Each operation first asks \<open>fault\<close>;
  otherwise its outcome is a function of the resources. A describe call changes nothing
  but the trace.
\<close>

definition describe_instances :: "string \<Rightarrow> world \<Rightarrow> instance_desc list list result" where
  "describe_instances instance_id w =
     (let c = DescribeInstances [instance_id] in
      case fault w c of
        Some e \<Rightarrow> raises c e w
      | None \<Rightarrow>
          (case map_of (instances w) instance_id of
             None \<Rightarrow> raises c (ClientError ''InvalidInstanceID.NotFound'') w
           | Some d \<Rightarrow> returns c [[d]] w))"

fun subnet_matches :: "subnet \<Rightarrow> aws_filter \<Rightarrow> bool" where
  "subnet_matches s (VpcIdFilter vs) = (s_VpcId s \<in> set vs)"
| "subnet_matches s (AvailabilityZoneFilter zs) = (s_AvailabilityZone s \<in> set zs)"

definition describe_subnets :: "string list \<Rightarrow> aws_filter list \<Rightarrow> world \<Rightarrow> subnet list result" where
  "describe_subnets ids filters w =
     (let c = DescribeSubnets ids filters in
      case fault w c of
        Some e \<Rightarrow> raises c e w
      | None \<Rightarrow>
          if \<not> list_all (\<lambda>i. i \<in> set (map s_SubnetId (subnets w))) ids
          then raises c (ClientError ''InvalidSubnetID.NotFound'') w
          else returns c
                 (filter (\<lambda>s. (ids = [] \<or> s_SubnetId s \<in> set ids) \<and> list_all (subnet_matches s) filters)
                    (subnets w)) w)"

fun route_table_matches :: "route_table \<Rightarrow> aws_filter \<Rightarrow> bool" where
  "route_table_matches t (VpcIdFilter vs) = (rt_VpcId t \<in> set vs)"
| "route_table_matches t (AvailabilityZoneFilter zs) = False"

definition describe_route_tables :: "aws_filter list \<Rightarrow> world \<Rightarrow> route_table list result" where
  "describe_route_tables filters w =
     (let c = DescribeRouteTables filters in
      case fault w c of
        Some e \<Rightarrow> raises c e w
      | None \<Rightarrow> returns c (filter (\<lambda>t. list_all (route_table_matches t) filters) (route_tables w)) w)"

definition describe_availability_zones :: "world \<Rightarrow> string list result" where
  "describe_availability_zones w =
     (let c = DescribeAvailabilityZones in
      case fault w c of
        Some e \<Rightarrow> raises c e w
      | None \<Rightarrow> returns c (availability_zones w) w)"

definition set_state :: "string \<Rightarrow> string \<Rightarrow> world \<Rightarrow> world" where
  "set_state instance_id st w =
     w\<lparr>instances :=
         map (\<lambda>(k, d). if k = instance_id then (k, d\<lparr>i_State := Some st\<rparr>) else (k, d)) (instances w)\<rparr>"

definition run_instances :: "run_params \<Rightarrow> world \<Rightarrow> string result" where
  "run_instances p w =
     (let c = RunInstances p in
      case fault w c of
        Some e \<Rightarrow> raises c e w
      | None \<Rightarrow>
          (case find (\<lambda>s. s_SubnetId s = rp_SubnetId p) (subnets w) of
             None \<Rightarrow> raises c (ClientError ''InvalidSubnetID.NotFound'') w
           | Some s \<Rightarrow>
               (case allocations w of
                  [] \<Rightarrow> raises c (ClientError ''InsufficientInstanceCapacity'') w
                | a # rest \<Rightarrow>
                    returns c (new_InstanceId a)
                      (w\<lparr>instances := instances w @
                            [(new_InstanceId a,
                              \<lparr>i_PrivateIpAddress = Some (new_PrivateIpAddress a),
                               i_AvailabilityZone = Some (s_AvailabilityZone s),
                               i_State = Some ''pending'',
                               i_ImageId = Some (rp_ImageId p),
                               i_InstanceType = Some (rp_InstanceType p),
                               i_SubnetId = Some (s_SubnetId s),
                               i_NetworkInterfaces = [new_NetworkInterfaceId a]\<rparr>)],
                          source_dest_check := source_dest_check w @ [(new_NetworkInterfaceId a, True)],
                          allocations := rest\<rparr>))))"

text \<open>
  The \<^verbatim>\<open>instance_running\<close> waiter returns once the instance runs (time passes inside
  the call: a pending instance is running afterwards) and raises when the instance is
  unknown or in a state that never leads there.
\<close>

definition wait_instance_running :: "string \<Rightarrow> world \<Rightarrow> unit result" where
  "wait_instance_running instance_id w =
     (let c = WaitInstanceRunning [instance_id] in
      case fault w c of
        Some e \<Rightarrow> raises c e w
      | None \<Rightarrow>
          (case map_of (instances w) instance_id of
             None \<Rightarrow> raises c (WaiterError ''InstanceRunning'') w
           | Some d \<Rightarrow>
               if i_State d = Some ''pending'' \<or> i_State d = Some ''running''
               then returns c () (set_state instance_id ''running'' w)
               else raises c (WaiterError ''InstanceRunning'') w))"

definition wait_instance_status_ok :: "string \<Rightarrow> world \<Rightarrow> unit result" where
  "wait_instance_status_ok instance_id w =
     (let c = WaitInstanceStatusOk [instance_id] in
      case fault w c of
        Some e \<Rightarrow> raises c e w
      | None \<Rightarrow>
          (case map_of (instances w) instance_id of
             None \<Rightarrow> raises c (WaiterError ''InstanceStatusOk'') w
           | Some d \<Rightarrow>
               if i_State d = Some ''running''
               then returns c () w
               else raises c (WaiterError ''InstanceStatusOk'') w))"

definition modify_network_interface_attribute :: "string \<Rightarrow> bool \<Rightarrow> world \<Rightarrow> unit result" where
  "modify_network_interface_attribute eni_id v w =
     (let c = ModifyNetworkInterfaceAttribute eni_id v in
      case fault w c of
        Some e \<Rightarrow> raises c e w
      | None \<Rightarrow>
          (case map_of (source_dest_check w) eni_id of
             None \<Rightarrow> raises c (ClientError ''InvalidNetworkInterfaceID.NotFound'') w
           | Some _ \<Rightarrow>
               returns c ()
                 (w\<lparr>source_dest_check :=
                      map (\<lambda>(k, b). if k = eni_id then (k, v) else (k, b)) (source_dest_check w)\<rparr>)))"

text \<open>
  Routes. A table is named by its identifier; \<^verbatim>\<open>delete_route\<close> raises when the table
  has no route to the destination, \<^verbatim>\<open>create_route\<close> raises when it already has one
  or when the instance is unknown.
\<close>

definition has_route :: "string \<Rightarrow> route_table \<Rightarrow> bool" where
  "has_route cidr t = (\<exists>r \<in> set (rt_Routes t). r_DestinationCidrBlock r = cidr)"

definition tables_named :: "string \<Rightarrow> route_table list \<Rightarrow> route_table list" where
  "tables_named rt_id ts = filter (\<lambda>t. rt_RouteTableId t = rt_id) ts"

definition remove_route :: "string \<Rightarrow> string \<Rightarrow> route_table \<Rightarrow> route_table" where
  "remove_route rt_id cidr t =
     (if rt_RouteTableId t = rt_id
      then t\<lparr>rt_Routes := filter (\<lambda>r. r_DestinationCidrBlock r \<noteq> cidr) (rt_Routes t)\<rparr>
      else t)"

definition add_route :: "string \<Rightarrow> string \<Rightarrow> string \<Rightarrow> route_table \<Rightarrow> route_table" where
  "add_route rt_id cidr instance_id t =
     (if rt_RouteTableId t = rt_id
      then t\<lparr>rt_Routes := rt_Routes t @
               [\<lparr>r_DestinationCidrBlock = cidr, r_Target = ToInstance instance_id\<rparr>]\<rparr>
      else t)"

definition delete_route :: "string \<Rightarrow> string \<Rightarrow> world \<Rightarrow> unit result" where
  "delete_route rt_id cidr w =
     (let c = DeleteRoute rt_id cidr in
      case fault w c of
        Some e \<Rightarrow> raises c e w
      | None \<Rightarrow>
          if tables_named rt_id (route_tables w) = []
          then raises c (ClientError ''InvalidRouteTableID.NotFound'') w
          else if \<not> list_ex (has_route cidr) (tables_named rt_id (route_tables w))
          then raises c (ClientError ''InvalidRoute.NotFound'') w
          else returns c () (w\<lparr>route_tables := map (remove_route rt_id cidr) (route_tables w)\<rparr>))"

definition create_route :: "string \<Rightarrow> string \<Rightarrow> string \<Rightarrow> world \<Rightarrow> unit result" where
  "create_route rt_id cidr instance_id w =
     (let c = CreateRoute rt_id cidr instance_id in
      case fault w c of
        Some e \<Rightarrow> raises c e w
      | None \<Rightarrow>
          if tables_named rt_id (route_tables w) = []
          then raises c (ClientError ''InvalidRouteTableID.NotFound'') w
          else if list_ex (has_route cidr) (tables_named rt_id (route_tables w))
          then raises c (ClientError ''RouteAlreadyExists'') w
          else if map_of (instances w) instance_id = None
          then raises c (ClientError ''InvalidInstanceID.NotFound'') w
          else returns c () (w\<lparr>route_tables := map (add_route rt_id cidr instance_id) (route_tables w)\<rparr>))"

definition terminate_instances :: "string \<Rightarrow> world \<Rightarrow> unit result" where
  "terminate_instances instance_id w =
     (let c = TerminateInstances [instance_id] in
      case fault w c of
        Some e \<Rightarrow> raises c e w
      | None \<Rightarrow>
          (case map_of (instances w) instance_id of
             None \<Rightarrow> raises c (ClientError ''InvalidInstanceID.NotFound'') w
           | Some d \<Rightarrow> returns c () (set_state instance_id ''shutting-down'' w)))"

subsection \<open>The controller's helper functions\<close>

text \<open>
  \<^verbatim>\<open>ping_instance\<close> (lines 17-37): one \<^verbatim>\<open>ping -c 1 -W 2\<close> with a timeout of five
  seconds; reachable exactly when the process exits with status 0. The timeout and any
  other exception are caught and give \<^verbatim>\<open>False\<close>.
\<close>

definition ping_instance :: "string \<Rightarrow> world \<Rightarrow> bool \<times> world" where
  "ping_instance ip w =
     (let w1 = emit (Subprocess [''ping'', ''-c'', ''1'', ''-W'', ''2'', ip] 5) w in
      case ping_result w ip of
        Exited returncode \<Rightarrow> (if returncode = 0 then (True, w1) else (False, w1))
      | TimeoutExpired \<Rightarrow> (False, w1)
      | LaunchFailed \<Rightarrow> (False, w1))"

text \<open>
  The dict \<^verbatim>\<open>get_instance_info\<close> returns. \<open>info_ip\<close> is read with \<^verbatim>\<open>.get\<close> and may
  be \<^verbatim>\<open>None\<close>.
\<close>

record instance_info =
  info_ip :: "string option"
  info_az :: string
  info_state :: string
  info_ami_id :: string
  info_instance_type :: string
  info_subnet_id :: string

text \<open>
  Lines 51-60 of \<^verbatim>\<open>get_instance_info\<close>: the first instance of the first reservation,
  and the dict made of it. An empty list raises \<^verbatim>\<open>IndexError\<close>, and the first missing
  key, in the order the dict is written, raises \<^verbatim>\<open>KeyError\<close>.
\<close>

definition instance_info_of :: "instance_desc list list \<Rightarrow> error + instance_info" where
  "instance_info_of response =
     (case response of
        [] \<Rightarrow> Inl IndexError
      | reservation # _ \<Rightarrow>
          (case reservation of
             [] \<Rightarrow> Inl IndexError
           | instance # _ \<Rightarrow>
               (case i_AvailabilityZone instance of
                  None \<Rightarrow> Inl (KeyError ''AvailabilityZone'')
                | Some a \<Rightarrow>
               (case i_State instance of
                  None \<Rightarrow> Inl (KeyError ''State'')
                | Some s \<Rightarrow>
               (case i_ImageId instance of
                  None \<Rightarrow> Inl (KeyError ''ImageId'')
                | Some i \<Rightarrow>
               (case i_InstanceType instance of
                  None \<Rightarrow> Inl (KeyError ''InstanceType'')
                | Some t \<Rightarrow>
               (case i_SubnetId instance of
                  None \<Rightarrow> Inl (KeyError ''SubnetId'')
                | Some sn \<Rightarrow>
                    Inr \<lparr>info_ip = i_PrivateIpAddress instance, info_az = a, info_state = s,
                         info_ami_id = i, info_instance_type = t, info_subnet_id = sn\<rparr>)))))))"

text \<open>The body of the \<^verbatim>\<open>try\<close> of \<^verbatim>\<open>get_instance_info\<close> (lines 49-60).\<close>

definition lookup_instance :: "string \<Rightarrow> world \<Rightarrow> instance_info result" where
  "lookup_instance instance_id w =
     then_do (describe_instances instance_id w) (\<lambda>response w1. (instance_info_of response, w1))"

text \<open>
  \<^verbatim>\<open>get_instance_info\<close> (lines 39-63). Everything after the client's creation is
  inside \<^verbatim>\<open>try\<close>, and \<^verbatim>\<open>except Exception\<close> returns \<^verbatim>\<open>None\<close> whatever was raised.
  The function itself never raises.
\<close>

definition get_instance_info :: "string \<Rightarrow> world \<Rightarrow> instance_info option \<times> world" where
  "get_instance_info instance_id w =
     (case lookup_instance instance_id w of
        (Inl e, w1) \<Rightarrow> (None, w1)
      | (Inr info, w1) \<Rightarrow> (Some info, w1))"

text \<open>
  \<^verbatim>\<open>ipaddress.IPv4Network(cidr)\<close> is strict: it raises \<^verbatim>\<open>ValueError\<close> when the prefix is
  longer than 32 bits or the address has host bits set.
\<close>

definition ipv4_network :: "ipv4_cidr \<Rightarrow> error + 32 word" where
  "ipv4_network c =
     (if cidr_prefixlen c > 32 then Inl ValueError
      else if cidr_address c AND mask (32 - cidr_prefixlen c) \<noteq> 0 then Inl ValueError
      else Inr (cidr_address c))"

text \<open>
  \<^verbatim>\<open>get_subnet_gateway\<close> (lines 65-71): the network address plus one. Python's address
  arithmetic raises past \<^verbatim>\<open>255.255.255.255\<close> where a word would wrap. The source returns
  the address as dotted text; the model keeps the word.
\<close>

definition get_subnet_gateway :: "string \<Rightarrow> world \<Rightarrow> 32 word result" where
  "get_subnet_gateway subnet_id w =
     then_do (describe_subnets [subnet_id] [] w) (\<lambda>found w1.
       case found of
         [] \<Rightarrow> (Inl IndexError, w1)
       | subnet # _ \<Rightarrow>
           (case ipv4_network (s_CidrBlock subnet) of
              Inl e \<Rightarrow> (Inl e, w1)
            | Inr network_address \<Rightarrow>
                if network_address = - 1 then (Inl ValueError, w1)
                else (Inr (network_address + 1), w1)))"

text \<open>\<^verbatim>\<open>get_other_azs\<close> (lines 73-77): the zone names other than \<open>current_az\<close>, in order.\<close>

definition get_other_azs :: "string \<Rightarrow> world \<Rightarrow> string list result" where
  "get_other_azs current_az w =
     then_do (describe_availability_zones w) (\<lambda>azs w1.
       (Inr (filter (\<lambda>zone_name. zone_name \<noteq> current_az) azs), w1))"

text \<open>
  \<^verbatim>\<open>get_subnet_in_az\<close> (lines 79-97): the first subnet of the original subnet's VPC
  that lies in the target zone, or \<^verbatim>\<open>None\<close>.
\<close>

definition get_subnet_in_az :: "string \<Rightarrow> string \<Rightarrow> world \<Rightarrow> string option result" where
  "get_subnet_in_az target_az original_subnet_id w =
     then_do (describe_subnets [original_subnet_id] [] w) (\<lambda>found w1.
       case found of
         [] \<Rightarrow> (Inl IndexError, w1)
       | original # _ \<Rightarrow>
           then_do (describe_subnets []
                      [VpcIdFilter [s_VpcId original], AvailabilityZoneFilter [target_az]] w1)
             (\<lambda>in_az w2.
                case in_az of
                  [] \<Rightarrow> (Inr None, w2)
                | s # _ \<Rightarrow> (Inr (Some (s_SubnetId s)), w2)))"

text \<open>\<^verbatim>\<open>get_route_tables\<close> (lines 99-112): the identifiers of every route table of the subnet's VPC.\<close>

definition get_route_tables :: "string \<Rightarrow> world \<Rightarrow> string list result" where
  "get_route_tables subnet_id w =
     then_do (describe_subnets [subnet_id] [] w) (\<lambda>found w1.
       case found of
         [] \<Rightarrow> (Inl IndexError, w1)
       | s # _ \<Rightarrow>
           then_do (describe_route_tables [VpcIdFilter [s_VpcId s]] w1) (\<lambda>tables w2.
             (Inr (map rt_RouteTableId tables), w2)))"

subsection \<open>Route reconciliation\<close>

text \<open>
  \<^verbatim>\<open>update_routes\<close>, lines 118-125: the subnet of the old instance, or of the new one
  when the old one gives no info. With no info for either, \<^verbatim>\<open>new_info['subnet_id']\<close>
  raises \<^verbatim>\<open>TypeError\<close>.
\<close>

definition routes_subnet :: "string \<Rightarrow> string \<Rightarrow> world \<Rightarrow> string result" where
  "routes_subnet old_instance_id new_instance_id w =
     (case get_instance_info old_instance_id w of
        (Some old_info, w1) \<Rightarrow> (Inr (info_subnet_id old_info), w1)
      | (None, w1) \<Rightarrow>
          (case get_instance_info new_instance_id w1 of
             (Some new_info, w2) \<Rightarrow> (Inr (info_subnet_id new_info), w2)
           | (None, w2) \<Rightarrow> (Inl TypeError, w2)))"

text \<open>
  Lines 130-149, the body of the loop: delete the route, whatever comes of it (a bare
  \<^verbatim>\<open>except: pass\<close>), then create the new one, whatever comes of it (the exception is
  printed).
\<close>

definition replace_route :: "string \<Rightarrow> string \<Rightarrow> string \<Rightarrow> world \<Rightarrow> world" where
  "replace_route rt_id new_instance_id destination_cidr w =
     snd (create_route rt_id destination_cidr new_instance_id
            (snd (delete_route rt_id destination_cidr w)))"

primrec update_loop :: "string list \<Rightarrow> string \<Rightarrow> string \<Rightarrow> world \<Rightarrow> world" where
  "update_loop [] new_instance_id destination_cidr w = w"
| "update_loop (rt_id # rest) new_instance_id destination_cidr w =
     update_loop rest new_instance_id destination_cidr
       (replace_route rt_id new_instance_id destination_cidr w)"

text \<open>Lines 118-127: the route tables that \<^verbatim>\<open>update_routes\<close> is going to work on.\<close>

definition route_table_ids :: "string \<Rightarrow> string \<Rightarrow> world \<Rightarrow> string list result" where
  "route_table_ids old_instance_id new_instance_id w =
     then_do (routes_subnet old_instance_id new_instance_id w) (\<lambda>subnet_id w1.
       get_route_tables subnet_id w1)"

text \<open>\<^verbatim>\<open>update_routes\<close> (lines 114-149). It returns nothing.\<close>

definition update_routes :: "string \<Rightarrow> string \<Rightarrow> string \<Rightarrow> world \<Rightarrow> unit result" where
  "update_routes old_instance_id new_instance_id destination_cidr w =
     then_do (route_table_ids old_instance_id new_instance_id w) (\<lambda>ids w1.
       (Inr (), update_loop ids new_instance_id destination_cidr w1))"

subsection \<open>Provisioning\<close>

text \<open>
  \<^verbatim>\<open>render_user_data\<close> (lines 151-160): read the template file and render it with the
  two values.
\<close>

definition render_user_data :: "string \<Rightarrow> 32 word \<Rightarrow> string \<Rightarrow> world \<Rightarrow> user_data result" where
  "render_user_data template_file az_subnet_gateway route_destination w =
     (case files w template_file of
        None \<Rightarrow> (Inl (FileNotFoundError template_file), w)
      | Some template_content \<Rightarrow>
          (Inr (Rendered template_content az_subnet_gateway route_destination), w))"

text \<open>
  \<^verbatim>\<open>random.randint(lo, hi)\<close>: the next value of \<open>randoms\<close>, brought into the range.
\<close>

definition randint :: "nat \<Rightarrow> nat \<Rightarrow> world \<Rightarrow> nat \<times> world" where
  "randint lo hi w =
     (case randoms w of
        [] \<Rightarrow> (lo, w)
      | r # rest \<Rightarrow> (lo + r mod (hi - lo + 1), w\<lparr>randoms := rest\<rparr>))"

text \<open>\<^verbatim>\<open>str(n)\<close> of a natural number, which the f-string of the name tag applies.\<close>

fun decimal :: "nat \<Rightarrow> string" where
  "decimal n =
     (if n < 10 then [''0123456789'' ! n]
      else decimal (n div 10) @ [''0123456789'' ! (n mod 10)])"

declare decimal.simps [simp del]

text \<open>
  What the replacement path reads of the info dict: \<^verbatim>\<open>az\<close>, \<^verbatim>\<open>subnet_id\<close>,
  \<^verbatim>\<open>ami_id\<close> and \<^verbatim>\<open>instance_type\<close>. The dict that \<^verbatim>\<open>main\<close> makes up when the
  instance gave no info (line 299) has these four keys only.
\<close>

record launch_info =
  li_az :: string
  li_subnet_id :: string
  li_ami_id :: string
  li_instance_type :: string

definition launch_view :: "instance_info \<Rightarrow> launch_info" where
  "launch_view i =
     \<lparr>li_az = info_az i, li_subnet_id = info_subnet_id i, li_ami_id = info_ami_id i,
      li_instance_type = info_instance_type i\<rparr>"

text \<open>
  Lines 177-204 of \<^verbatim>\<open>launch_instance_in_az\<close>: draw the five-digit number of the name
  tag and create the instance; the result is its identifier.
\<close>

definition start_instance ::
  "launch_info \<Rightarrow> string \<Rightarrow> string \<Rightarrow> string \<Rightarrow> user_data \<Rightarrow> world \<Rightarrow> string result" where
  "start_instance instance_info target_subnet security_group keypair user_data w =
     (case randint 10000 99999 w of
        (random_id, w1) \<Rightarrow>
          run_instances
            \<lparr>rp_ImageId = li_ami_id instance_info, rp_MinCount = 1, rp_MaxCount = 1,
             rp_InstanceType = li_instance_type instance_info, rp_KeyName = keypair,
             rp_SecurityGroupIds = [security_group], rp_SubnetId = target_subnet,
             rp_UserData = user_data,
             rp_NameTag = ''sec-ip-vip-'' @ decimal random_id\<rparr> w1)"

text \<open>
  Lines 210-217: describe the new instance and switch off the source/destination check
  of its first network interface.
\<close>

definition disable_source_dest_check :: "string \<Rightarrow> world \<Rightarrow> unit result" where
  "disable_source_dest_check new_instance_id w =
     then_do (describe_instances new_instance_id w) (\<lambda>response w1.
       case response of
         [] \<Rightarrow> (Inl IndexError, w1)
       | reservation # _ \<Rightarrow>
           (case reservation of
              [] \<Rightarrow> (Inl IndexError, w1)
            | instance # _ \<Rightarrow>
                (case i_NetworkInterfaces instance of
                   [] \<Rightarrow> (Inl IndexError, w1)
                 | eni_id # _ \<Rightarrow> modify_network_interface_attribute eni_id False w1)))"

text \<open>
  \<^verbatim>\<open>launch_instance_in_az\<close> (lines 162-219). \<^verbatim>\<open>if not target_subnet\<close> is true for
  \<^verbatim>\<open>None\<close> and for the empty string.
\<close>

definition launch_instance_in_az ::
  "launch_info \<Rightarrow> string \<Rightarrow> string \<Rightarrow> string \<Rightarrow> string \<Rightarrow> string \<Rightarrow> world \<Rightarrow> string result" where
  "launch_instance_in_az instance_info target_az security_group keypair user_data_template
       route_destination w =
     then_do (get_subnet_in_az target_az (li_subnet_id instance_info) w) (\<lambda>found w1.
       case found of
         None \<Rightarrow> (Inl (PyException (''No subnet found in AZ '' @ target_az)), w1)
       | Some target_subnet \<Rightarrow>
           if target_subnet = [] then (Inl (PyException (''No subnet found in AZ '' @ target_az)), w1)
           else
             then_do (get_subnet_gateway target_subnet w1) (\<lambda>az_subnet_gateway w2.
             then_do (render_user_data user_data_template az_subnet_gateway route_destination w2)
               (\<lambda>user_data w3.
             then_do (start_instance instance_info target_subnet security_group keypair user_data w3)
               (\<lambda>new_instance_id w4.
             then_do (wait_instance_running new_instance_id w4) (\<lambda>_ w5.
             then_do (disable_source_dest_check new_instance_id w5) (\<lambda>_ w6.
               (Inr new_instance_id, w6)))))))"

subsection \<open>The monitoring loop\<close>

record args =
  instance_id :: string
  security_group :: string
  keypair :: string
  user_data_file :: string
  route_destination :: string

text \<open>
  The decision of a cycle. In the source it is the pair of \<^verbatim>\<open>needs_replacement\<close> and
  \<^verbatim>\<open>reason\<close>: \<open>NoAction\<close> is \<^verbatim>\<open>needs_replacement = False\<close>, and \<open>Replace\<close> carries
  the reason, \<^verbatim>\<open>"not found"\<close>, \<^verbatim>\<open>"state is <state>"\<close> or \<^verbatim>\<open>"unreachable"\<close>.
\<close>

datatype action = NoAction | Replace reason

text \<open>
  Lines 249-269 of \<^verbatim>\<open>main\<close>: the decision and the value of \<^verbatim>\<open>ping_reachable\<close>. The
  probe runs in the last branch only, against the text of the route destination before
  its first \<^verbatim>\<open>/\<close>.
\<close>

definition check_replacement :: "args \<Rightarrow> instance_info option \<Rightarrow> world \<Rightarrow> (action \<times> bool) \<times> world" where
  "check_replacement a info w =
     (case info of
        None \<Rightarrow> ((Replace NotFound, False), w)
      | Some i \<Rightarrow>
          if info_state i \<noteq> ''running'' then ((Replace (NotRunning (info_state i)), False), w)
          else
            (let route_ip = takeWhile (\<lambda>c. c \<noteq> CHR ''/'') (route_destination a) in
             case ping_instance route_ip w of
               (ping_reachable, w1) \<Rightarrow>
                 if \<not> ping_reachable then ((Replace Unreachable, ping_reachable), w1)
                 else ((NoAction, ping_reachable), w1)))"

text \<open>Lines 274-280: the status line of the cycle.\<close>

definition status_line :: "string \<Rightarrow> instance_info option \<Rightarrow> bool \<Rightarrow> message" where
  "status_line current_instance_id info ping_reachable =
     (case info of
        None \<Rightarrow> StatusNotFound current_instance_id
      | Some i \<Rightarrow>
          if info_state i \<noteq> ''running'' then StatusState current_instance_id (info_state i)
          else StatusRunning current_instance_id (info_ip i) (info_az i) ping_reachable)"

text \<open>
  Lines 287-304: the info to launch from. With no info of the instance, the first zone
  of the region and the first subnet found in it, with a default image and type;
  \<open>Inr None\<close> is the \<^verbatim>\<open>continue\<close> of line 297, after its sleep.
\<close>

definition fallback_info :: "instance_info option \<Rightarrow> world \<Rightarrow> launch_info option result" where
  "fallback_info info w =
     (case info of
        Some i \<Rightarrow> (Inr (Some (launch_view i)), w)
      | None \<Rightarrow>
          then_do (describe_availability_zones w) (\<lambda>azs w1.
            case azs of
              [] \<Rightarrow> (Inl IndexError, w1)
            | target_az # _ \<Rightarrow>
                then_do (describe_subnets [] [AvailabilityZoneFilter [target_az]] w1) (\<lambda>found w2.
                  case found of
                    [] \<Rightarrow> (Inr None, sleep 5 (emit (Stdout NoSubnetsRetry) w2))
                  | s # _ \<Rightarrow>
                      (Inr (Some \<lparr>li_az = target_az, li_subnet_id = s_SubnetId s,
                                  li_ami_id = ''ami-0c02fb55956c7d316'',
                                  li_instance_type = ''t3.micro''\<rparr>), w2))))"

text \<open>
  Lines 315-323: launch the replacement, then wait until its status checks pass.
\<close>

definition provision :: "args \<Rightarrow> launch_info \<Rightarrow> string \<Rightarrow> world \<Rightarrow> string result" where
  "provision a info target_az w =
     then_do (launch_instance_in_az info target_az (security_group a) (keypair a)
                (user_data_file a) (route_destination a) w) (\<lambda>new_instance_id w1.
     then_do (wait_instance_status_ok new_instance_id w1) (\<lambda>_ w2. (Inr new_instance_id, w2)))"

text \<open>
  Lines 315-345, once the target zone is chosen: provision, sleep 30 seconds, update the
  routes, terminate the old instance (any exception of the termination is caught), and
  the sleep that ends the cycle. The result is the new value of
  \<^verbatim>\<open>current_instance_id\<close>.
\<close>

definition failover :: "args \<Rightarrow> string \<Rightarrow> launch_info \<Rightarrow> string \<Rightarrow> world \<Rightarrow> string result" where
  "failover a current_instance_id info target_az w =
     then_do (provision a info target_az w) (\<lambda>new_instance_id w2.
     then_do (update_routes current_instance_id new_instance_id (route_destination a) (sleep 30 w2))
       (\<lambda>_ w3.
          (Inr new_instance_id, sleep 5 (snd (terminate_instances current_instance_id w3)))))"

text \<open>
  Lines 283-345, the branch of \<^verbatim>\<open>needs_replacement\<close>. The two \<^verbatim>\<open>continue\<close> paths
  sleep five seconds and keep \<^verbatim>\<open>current_instance_id\<close>.
\<close>

definition replace_instance ::
  "args \<Rightarrow> string \<Rightarrow> instance_info option \<Rightarrow> reason \<Rightarrow> world \<Rightarrow> string result" where
  "replace_instance a current_instance_id info why w =
     then_do (fallback_info info (emit (Stdout (LaunchingReplacement why)) w)) (\<lambda>known w1.
       case known of
         None \<Rightarrow> (Inr current_instance_id, w1)
       | Some launch_from \<Rightarrow>
           then_do (get_other_azs (li_az launch_from) w1) (\<lambda>other_azs w2.
             case other_azs of
               [] \<Rightarrow> (Inr current_instance_id, sleep 5 (emit (Stdout NoOtherAZsRetry) w2))
             | target_az # _ \<Rightarrow>
                 failover a current_instance_id launch_from target_az
                   (emit (Stdout (LaunchingInAZ target_az)) w2)))"

text \<open>
  One turn of the \<^verbatim>\<open>while True\<close> loop (lines 238-345). \<open>Inr\<close> is the instance to
  watch in the next turn; \<open>Inl\<close> is an exception that leaves the loop.
\<close>

definition cycle :: "args \<Rightarrow> string \<Rightarrow> world \<Rightarrow> string result" where
  "cycle a current_instance_id w =
     (case get_instance_info current_instance_id w of
        (info, w1) \<Rightarrow>
          (case check_replacement a info w1 of
             ((decision, ping_reachable), w2) \<Rightarrow>
               (let w3 = emit (Stdout (status_line current_instance_id info ping_reachable)) w2 in
                case decision of
                  NoAction \<Rightarrow> (Inr current_instance_id, sleep 5 w3)
                | Replace why \<Rightarrow> replace_instance a current_instance_id info why w3)))"

text \<open>
  \<^verbatim>\<open>main\<close>: the loop, run for at most \<open>n\<close> turns. \<open>Some 1\<close> is \<^verbatim>\<open>sys.exit(1)\<close> after an
  exception; \<open>None\<close> says the loop is still running after \<open>n\<close> turns (it has no exit of
  its own; the operator's interrupt, which ends it with status 0, is not part of the
  model). The only state carried from one turn to the next is the instance watched.
\<close>

primrec main_loop :: "nat \<Rightarrow> args \<Rightarrow> string \<Rightarrow> world \<Rightarrow> nat option \<times> world" where
  "main_loop 0 a current_instance_id w = (None, w)"
| "main_loop (Suc n) a current_instance_id w =
     (case cycle a current_instance_id w of
        (Inl e, w1) \<Rightarrow> (Some 1, emit (Stdout (ErrorExit e)) w1)
      | (Inr next_instance_id, w1) \<Rightarrow> main_loop n a next_instance_id w1)"

definition main :: "nat \<Rightarrow> args \<Rightarrow> world \<Rightarrow> nat option \<times> world" where
  "main n a w = main_loop n a (instance_id a) w"

section \<open>What the statements are written with\<close>

subsection \<open>The health observation and the decision, in the specification's words\<close>




subsection \<open>Reading the trace\<close>

text \<open>The events a run from \<open>w\<close> to \<open>w'\<close> has added.\<close>

definition new_events :: "world \<Rightarrow> world \<Rightarrow> event list" where
  "new_events w w' = drop (length (trace w)) (trace w')"

text \<open>A run from \<open>w\<close> to \<open>w'\<close> keeps the trace it found and adds events that satisfy \<open>P\<close>.\<close>

definition adds_only :: "(event \<Rightarrow> bool) \<Rightarrow> world \<Rightarrow> world \<Rightarrow> bool" where
  "adds_only P w w' = (take (length (trace w)) (trace w') = trace w \<and> list_all P (new_events w w'))"

fun is_probe :: "event \<Rightarrow> bool" where
  "is_probe (Subprocess argv timeout) = True"
| "is_probe _ = False"

fun api_calls :: "event list \<Rightarrow> api_call list" where
  "api_calls [] = []"
| "api_calls (Api c ok # es) = c # api_calls es"
| "api_calls (_ # es) = api_calls es"

fun is_describe :: "api_call \<Rightarrow> bool" where
  "is_describe (DescribeInstances ids) = True"
| "is_describe (DescribeSubnets ids filters) = True"
| "is_describe (DescribeRouteTables filters) = True"
| "is_describe DescribeAvailabilityZones = True"
| "is_describe _ = False"

fun is_run_instances :: "event \<Rightarrow> bool" where
  "is_run_instances (Api (RunInstances p) ok) = True"
| "is_run_instances _ = False"

subsection \<open>A small region to run the controller in\<close>

text \<open>
  Two zones with one subnet each in one VPC, two route tables that both route
  \<^verbatim>\<open>10.0.0.10/32\<close> to the watched instance, no refused call, and a probe that fails.
\<close>

definition demo_instance :: instance_desc where
  "demo_instance =
     \<lparr>i_PrivateIpAddress = Some ''10.0.1.4'', i_AvailabilityZone = Some ''a'',
      i_State = Some ''running'', i_ImageId = Some ''ami-1'', i_InstanceType = Some ''t3'',
      i_SubnetId = Some ''s-a'', i_NetworkInterfaces = [''eni-1'']\<rparr>"

definition demo_info :: instance_info where
  "demo_info =
     \<lparr>info_ip = Some ''10.0.1.4'', info_az = ''a'', info_state = ''running'',
      info_ami_id = ''ami-1'', info_instance_type = ''t3'', info_subnet_id = ''s-a''\<rparr>"

definition demo_world :: world where
  "demo_world =
     \<lparr>instances = [(''i-1'', demo_instance)],
      subnets =
        [\<lparr>s_SubnetId = ''s-a'', s_VpcId = ''v'', s_AvailabilityZone = ''a'',
          s_CidrBlock = \<lparr>cidr_address = 167772416, cidr_prefixlen = 24\<rparr>\<rparr>,
         \<lparr>s_SubnetId = ''s-b'', s_VpcId = ''v'', s_AvailabilityZone = ''b'',
          s_CidrBlock = \<lparr>cidr_address = 167772672, cidr_prefixlen = 24\<rparr>\<rparr>],
      route_tables =
        [\<lparr>rt_RouteTableId = ''rt-1'', rt_VpcId = ''v'',
          rt_Routes = [\<lparr>r_DestinationCidrBlock = ''10.0.0.10/32'', r_Target = ToInstance ''i-1''\<rparr>]\<rparr>,
         \<lparr>rt_RouteTableId = ''rt-2'', rt_VpcId = ''v'',
          rt_Routes = [\<lparr>r_DestinationCidrBlock = ''0.0.0.0/0'', r_Target = ToGateway ''igw''\<rparr>,
                       \<lparr>r_DestinationCidrBlock = ''10.0.0.10/32'', r_Target = ToInstance ''i-1''\<rparr>]\<rparr>],
      availability_zones = [''a'', ''b''],
      source_dest_check = [(''eni-1'', False)],
      allocations =
        [\<lparr>new_InstanceId = ''i-2'', new_NetworkInterfaceId = ''eni-2'',
          new_PrivateIpAddress = ''10.0.2.4''\<rparr>],
      fault = (\<lambda>c. None),
      ping_result = (\<lambda>ip. Exited 1),
      files = (\<lambda>f. if f = ''ud.j2'' then Some ''template'' else None),
      randoms = [7],
      trace = []\<rparr>"

definition demo_args :: args where
  "demo_args =
     \<lparr>instance_id = ''i-1'', security_group = ''sg'', keypair = ''key'',
      user_data_file = ''ud.j2'', route_destination = ''10.0.0.10/32''\<rparr>"


text \<open>
  The events that are neither a probe nor a \<^verbatim>\<open>run_instances\<close> call, and a property of
  events that holds of all of them.
\<close>

fun is_plain :: "event \<Rightarrow> bool" where
  "is_plain (Api (RunInstances p) ok) = False"
| "is_plain (Subprocess argv timeout) = False"
| "is_plain _ = True"

definition on_plain :: "(event \<Rightarrow> bool) \<Rightarrow> bool" where
  "on_plain P = (\<forall>e. is_plain e \<longrightarrow> P e)"

text \<open>
  The one reachability probe of a cycle, as \<^verbatim>\<open>ping_instance\<close> starts it from \<^verbatim>\<open>main\<close>:
  one packet, two seconds for the reply, five seconds for the whole process, to the text
  of the route destination before its first \<^verbatim>\<open>/\<close>.
\<close>

definition the_probe :: "args \<Rightarrow> event" where
  "the_probe a =
     Subprocess [''ping'', ''-c'', ''1'', ''-W'', ''2'',
                 takeWhile (\<lambda>c. c \<noteq> CHR ''/'') (route_destination a)] 5"

text \<open>The launch that a cycle in \<open>demo_world\<close> makes.\<close>

definition demo_launch :: run_params where
  "demo_launch =
     \<lparr>rp_ImageId = ''ami-1'', rp_MinCount = 1, rp_MaxCount = 1, rp_InstanceType = ''t3'',
      rp_KeyName = ''key'', rp_SecurityGroupIds = [''sg''], rp_SubnetId = ''s-b'',
      rp_UserData = Rendered ''template'' 167772673 ''10.0.0.10/32'',
      rp_NameTag = ''sec-ip-vip-10007''\<rparr>"

text \<open>
  The steps among some events: the API calls that are not describe calls, in order.
  \<open>comes_before x y xs\<close> says that \<open>y\<close> occurs in \<open>xs\<close> after the first \<open>x\<close>.
\<close>

definition steps_of :: "event list \<Rightarrow> api_call list" where
  "steps_of evs = filter (\<lambda>c. \<not> is_describe c) (api_calls evs)"

definition comes_before :: "'a \<Rightarrow> 'a \<Rightarrow> 'a list \<Rightarrow> bool" where
  "comes_before x y xs = (y \<in> set (drop 1 (dropWhile (\<lambda>e. e \<noteq> x) xs)))"

definition on_describe :: "(event \<Rightarrow> bool) \<Rightarrow> bool" where
  "on_describe P = (\<forall>c ok. is_describe c \<longrightarrow> P (Api c ok))"

text \<open>
  Two regions in which the watched instance is gone. In \<open>demo_stranded\<close> the VPC has
  a subnet in zone \<^verbatim>\<open>a\<close> only, so the other zone \<^verbatim>\<open>b\<close> has none; in \<open>demo_bare\<close> there
  is no subnet at all.
\<close>

definition demo_stranded :: world where
  "demo_stranded =
     demo_world\<lparr>instances := [],
       subnets := [\<lparr>s_SubnetId = ''s-a'', s_VpcId = ''v'', s_AvailabilityZone = ''a'',
                    s_CidrBlock = \<lparr>cidr_address = 167772416, cidr_prefixlen = 24\<rparr>\<rparr>]\<rparr>"

definition demo_bare :: world where
  "demo_bare = demo_world\<lparr>instances := [], subnets := []\<rparr>"

text \<open>
  The region after a launch: the new instance \<^verbatim>\<open>i-2\<close> runs in zone \<^verbatim>\<open>b\<close>, and the
  routes still point at \<^verbatim>\<open>i-1\<close>. In \<open>demo_patchy\<close> the first table has no route to the
  destination and the provider refuses to create one in it.
\<close>

definition demo_launched :: world where
  "demo_launched =
     demo_world\<lparr>instances :=
       [(''i-1'', demo_instance),
        (''i-2'', \<lparr>i_PrivateIpAddress = Some ''10.0.2.4'', i_AvailabilityZone = Some ''b'',
                   i_State = Some ''running'', i_ImageId = Some ''ami-1'',
                   i_InstanceType = Some ''t3'', i_SubnetId = Some ''s-b'',
                   i_NetworkInterfaces = [''eni-2'']\<rparr>)]\<rparr>"

definition demo_patchy :: world where
  "demo_patchy =
     demo_launched\<lparr>route_tables :=
       [\<lparr>rt_RouteTableId = ''rt-1'', rt_VpcId = ''v'', rt_Routes = []\<rparr>,
        \<lparr>rt_RouteTableId = ''rt-2'', rt_VpcId = ''v'',
         rt_Routes = [\<lparr>r_DestinationCidrBlock = ''10.0.0.10/32'', r_Target = ToInstance ''i-1''\<rparr>]\<rparr>],
       fault := (\<lambda>c. if c = CreateRoute ''rt-1'' ''10.0.0.10/32'' ''i-2''
                       then Some (ClientError ''UnauthorizedOperation'') else None)\<rparr>"

subsection \<open>Route reconciliation on the tables alone\<close>

text \<open>
  What one turn of the loop of \<^verbatim>\<open>update_routes\<close> does to the route tables, as a function
  of the tables, the fault policy and whether the new instance is known: the delete
  takes effect when it is not refused and some table of that name has the route; the
  create takes effect when it is not refused, the instance is known, a table of that
  name exists and none has the route once the delete is done. \<open>table_loop\<close> is the
  whole loop. Lemma \<open>update_loop_tables\<close> shows that this is what \<open>update_loop\<close> does.
\<close>

definition deletes :: "(api_call \<Rightarrow> error option) \<Rightarrow> string \<Rightarrow> string \<Rightarrow> route_table list \<Rightarrow> bool" where
  "deletes flt rt_id cidr ts =
     (flt (DeleteRoute rt_id cidr) = None \<and> list_ex (has_route cidr) (tables_named rt_id ts))"

definition creates ::
  "(api_call \<Rightarrow> error option) \<Rightarrow> bool \<Rightarrow> string \<Rightarrow> string \<Rightarrow> string \<Rightarrow> route_table list \<Rightarrow> bool" where
  "creates flt known rt_id cidr new ts =
     (flt (CreateRoute rt_id cidr new) = None \<and> known \<and> tables_named rt_id ts \<noteq> [] \<and>
      (if deletes flt rt_id cidr ts then True
       else \<not> list_ex (has_route cidr) (tables_named rt_id ts)))"

definition table_step ::
  "(api_call \<Rightarrow> error option) \<Rightarrow> bool \<Rightarrow> string \<Rightarrow> string \<Rightarrow> string \<Rightarrow> route_table list \<Rightarrow> route_table list" where
  "table_step flt known rt_id cidr new ts =
     map ((if creates flt known rt_id cidr new ts then add_route rt_id cidr new else id) \<circ>
          (if deletes flt rt_id cidr ts then remove_route rt_id cidr else id)) ts"

definition table_loop ::
  "(api_call \<Rightarrow> error option) \<Rightarrow> bool \<Rightarrow> string list \<Rightarrow> string \<Rightarrow> string \<Rightarrow> route_table list \<Rightarrow> route_table list" where
  "table_loop flt known rts cidr new ts = fold (\<lambda>rt_id. table_step flt known rt_id cidr new) rts ts"

text \<open>
  \<open>settled cidr new t\<close>: table \<open>t\<close> has exactly one route to \<open>cidr\<close>, and it points at
  \<open>new\<close>. \<open>failed_creates\<close> are the tables whose \<^verbatim>\<open>create_route\<close> call raised.
\<close>

definition settled :: "string \<Rightarrow> string \<Rightarrow> route_table \<Rightarrow> bool" where
  "settled cidr new t =
     (filter (\<lambda>r. r_DestinationCidrBlock r = cidr) (rt_Routes t) =
        [\<lparr>r_DestinationCidrBlock = cidr, r_Target = ToInstance new\<rparr>])"

fun failed_creates :: "event list \<Rightarrow> string list" where
  "failed_creates [] = []"
| "failed_creates (Api (CreateRoute rt_id cidr new) False # es) = rt_id # failed_creates es"
| "failed_creates (_ # es) = failed_creates es"

text \<open>
  Two worlds have the same setup when they differ at most in the trace and in the routes
  of their tables; \<open>only_trace\<close> when they differ at most in the trace.
\<close>

definition table_key :: "route_table \<Rightarrow> string \<times> string" where
  "table_key t = (rt_RouteTableId t, rt_VpcId t)"

definition same_setup :: "world \<Rightarrow> world \<Rightarrow> bool" where
  "same_setup w w' =
     (instances w' = instances w \<and> subnets w' = subnets w \<and> fault w' = fault w \<and>
      map table_key (route_tables w') = map table_key (route_tables w))"

definition only_trace :: "world \<Rightarrow> world \<Rightarrow> bool" where
  "only_trace w w' = (\<exists>t. w' = w\<lparr>trace := t\<rparr>)"

section \<open>Basic facts\<close>

lemmas api_defs = describe_instances_def describe_subnets_def describe_route_tables_def
  describe_availability_zones_def run_instances_def wait_instance_running_def
  wait_instance_status_ok_def modify_network_interface_attribute_def delete_route_def
  create_route_def terminate_instances_def raises_def returns_def emit_def sleep_def
  set_state_def

lemma then_do_Inl [simp]: "then_do (Inl e, w) f = (Inl e, w)"
  by (simp add: then_do_def)

lemma then_do_Inr [simp]: "then_do (Inr x, w) f = f x w"
  by (simp add: then_do_def)

lemma then_do_eq_Inr:
  "then_do m f = (Inr y, w') \<longleftrightarrow> (\<exists>x w1. m = (Inr x, w1) \<and> f x w1 = (Inr y, w'))"
  by (cases m; cases "fst m") (auto simp: then_do_def)

lemmas py_defs = ping_instance_def instance_info_of_def lookup_instance_def get_instance_info_def
  ipv4_network_def get_subnet_gateway_def get_other_azs_def get_subnet_in_az_def get_route_tables_def
  routes_subnet_def replace_route_def route_table_ids_def update_routes_def render_user_data_def randint_def
  launch_view_def start_instance_def disable_source_dest_check_def
  launch_instance_in_az_def check_replacement_def status_line_def fallback_info_def
  provision_def failover_def replace_instance_def cycle_def


lemma demo_world_fields:
  "instances demo_world = [(''i-1'', demo_instance)]"
  "availability_zones demo_world = [''a'', ''b'']"
  "fault demo_world = (\<lambda>c. None)"
  "trace demo_world = []"
  by (simp_all add: demo_world_def)

subsection \<open>Traces\<close>

lemma new_events_self [simp]: "new_events w w = []"
  by (simp add: new_events_def)

lemma adds_onlyI: "trace w' = trace w @ evs \<Longrightarrow> list_all P evs \<Longrightarrow> adds_only P w w'"
  by (simp add: adds_only_def new_events_def)

lemma adds_onlyE:
  assumes "adds_only P w w'"
  obtains evs where "trace w' = trace w @ evs" "list_all P evs" "new_events w w' = evs"
proof -
  from assms have "trace w' = trace w @ new_events w w'"
    by (metis adds_only_def append_take_drop_id new_events_def)
  with assms show ?thesis
    using that by (simp add: adds_only_def)
qed

lemma adds_only_refl [simp]: "adds_only P w w"
  by (simp add: adds_only_def)

lemma adds_only_trans: "adds_only P w w1 \<Longrightarrow> adds_only P w1 w2 \<Longrightarrow> adds_only P w w2"
  by (elim adds_onlyE, rule adds_onlyI [where evs = "new_events w w1 @ new_events w1 w2"]) auto

lemma adds_only_emit: "P e \<Longrightarrow> adds_only P w (emit e w)"
  by (rule adds_onlyI [where evs = "[e]"]) (simp_all add: emit_def)

lemma adds_only_emit_after: "adds_only P w w1 \<Longrightarrow> P e \<Longrightarrow> adds_only P w (emit e w1)"
  using adds_only_emit adds_only_trans by blast

lemma adds_only_sleep_after: "adds_only P w w1 \<Longrightarrow> P (Sleep n) \<Longrightarrow> adds_only P w (sleep n w1)"
  by (simp add: sleep_def adds_only_emit_after)

lemma adds_only_same_trace: "trace w' = trace w \<Longrightarrow> adds_only P w w'"
  by (simp add: adds_only_def new_events_def)

lemma adds_only_then_do:
  assumes "adds_only P w (snd m)" and "\<And>x w1. m = (Inr x, w1) \<Longrightarrow> adds_only P w1 (snd (f x w1))"
  shows "adds_only P w (snd (then_do m f))"
proof (cases m)
  case (Pair r w1)
  then show ?thesis
    using assms by (cases r) (auto intro: adds_only_trans)
qed

text \<open>Each API operation adds exactly one event, the call itself.\<close>

lemma api_traces:
  "\<exists>ok. trace (snd (describe_instances i w)) = trace w @ [Api (DescribeInstances [i]) ok]"
  "\<exists>ok. trace (snd (describe_subnets ids fs w)) = trace w @ [Api (DescribeSubnets ids fs) ok]"
  "\<exists>ok. trace (snd (describe_route_tables fs w)) = trace w @ [Api (DescribeRouteTables fs) ok]"
  "\<exists>ok. trace (snd (describe_availability_zones w)) = trace w @ [Api DescribeAvailabilityZones ok]"
  "\<exists>ok. trace (snd (run_instances p w)) = trace w @ [Api (RunInstances p) ok]"
  "\<exists>ok. trace (snd (wait_instance_running i w)) = trace w @ [Api (WaitInstanceRunning [i]) ok]"
  "\<exists>ok. trace (snd (wait_instance_status_ok i w)) = trace w @ [Api (WaitInstanceStatusOk [i]) ok]"
  "\<exists>ok. trace (snd (modify_network_interface_attribute eni v w)) =
          trace w @ [Api (ModifyNetworkInterfaceAttribute eni v) ok]"
  "\<exists>ok. trace (snd (delete_route rt c w)) = trace w @ [Api (DeleteRoute rt c) ok]"
  "\<exists>ok. trace (snd (create_route rt c i w)) = trace w @ [Api (CreateRoute rt c i) ok]"
  "\<exists>ok. trace (snd (terminate_instances i w)) = trace w @ [Api (TerminateInstances [i]) ok]"
  by (auto simp: api_defs Let_def split: option.splits list.splits)

section \<open>The decision of a cycle\<close>



section \<open>A lookup that fails\<close>




subsection \<open>The events of each function\<close>

lemma adds_only_api:
  assumes "\<exists>ok. trace w' = trace w @ [Api c ok]" and "\<And>ok. P (Api c ok)"
  shows "adds_only P w w'"
  using assms by (auto intro!: adds_onlyI)

lemma plain_api:
  assumes "on_plain P"
  shows "adds_only P w (snd (describe_instances i w))"
    and "adds_only P w (snd (describe_subnets ids fs w))"
    and "adds_only P w (snd (describe_route_tables fs w))"
    and "adds_only P w (snd (describe_availability_zones w))"
    and "adds_only P w (snd (wait_instance_running i w))"
    and "adds_only P w (snd (wait_instance_status_ok i w))"
    and "adds_only P w (snd (modify_network_interface_attribute eni v w))"
    and "adds_only P w (snd (delete_route rt c w))"
    and "adds_only P w (snd (create_route rt c i w))"
    and "adds_only P w (snd (terminate_instances i w))"
  using assms by (auto intro!: adds_only_api api_traces simp: on_plain_def)

lemma plain_get_instance_info:
  assumes "on_plain P"
  shows "adds_only P w (snd (get_instance_info i w))"
proof -
  have "snd (get_instance_info i w) = snd (describe_instances i w)"
    by (cases "describe_instances i w"; cases "fst (describe_instances i w)")
       (auto simp: get_instance_info_def lookup_instance_def split: sum.splits)
  then show ?thesis
    by (simp add: plain_api assms)
qed

lemma plain_get_subnet_gateway:
  assumes "on_plain P"
  shows "adds_only P w (snd (get_subnet_gateway s w))"
  unfolding get_subnet_gateway_def
  by (intro adds_only_then_do plain_api assms) (auto split: list.splits sum.splits)

lemma plain_get_other_azs:
  assumes "on_plain P"
  shows "adds_only P w (snd (get_other_azs z w))"
  unfolding get_other_azs_def
  by (intro adds_only_then_do plain_api assms) auto

lemma plain_get_subnet_in_az:
  assumes "on_plain P"
  shows "adds_only P w (snd (get_subnet_in_az z s w))"
  unfolding get_subnet_in_az_def
  by (intro adds_only_then_do plain_api assms)
     (auto split: list.splits intro!: adds_only_then_do plain_api assms)

lemma plain_get_route_tables:
  assumes "on_plain P"
  shows "adds_only P w (snd (get_route_tables s w))"
  unfolding get_route_tables_def
  by (intro adds_only_then_do plain_api assms)
     (auto split: list.splits intro!: adds_only_then_do plain_api assms)

lemma plain_routes_subnet:
  assumes "on_plain P"
  shows "adds_only P w (snd (routes_subnet old new w))"
proof -
  obtain r1 w1 where one: "get_instance_info old w = (r1, w1)"
    by (cases "get_instance_info old w")
  obtain r2 w2 where two: "get_instance_info new w1 = (r2, w2)"
    by (cases "get_instance_info new w1")
  have "adds_only P w w1" "adds_only P w1 w2"
    using plain_get_instance_info [OF assms, of w old] plain_get_instance_info [OF assms, of w1 new]
    by (simp_all add: one two)
  then show ?thesis
    by (auto simp: routes_subnet_def one two split: option.splits intro: adds_only_trans)
qed

lemma plain_replace_route:
  assumes "on_plain P"
  shows "adds_only P w (replace_route rt new c w)"
  unfolding replace_route_def
  using adds_only_trans plain_api(8) plain_api(9) assms by blast

lemma plain_update_loop:
  assumes "on_plain P"
  shows "adds_only P w (update_loop rts new c w)"
proof (induction rts arbitrary: w)
  case Nil
  show ?case by simp
next
  case (Cons rt rts)
  have "adds_only P w (replace_route rt new c w)"
    by (rule plain_replace_route [OF assms])
  from adds_only_trans [OF this Cons.IH] show ?case
    by simp
qed

lemma plain_route_table_ids:
  assumes "on_plain P"
  shows "adds_only P w (snd (route_table_ids old new w))"
  unfolding route_table_ids_def
  by (intro adds_only_then_do plain_routes_subnet plain_get_route_tables assms)

lemma plain_update_routes:
  assumes "on_plain P"
  shows "adds_only P w (snd (update_routes old new c w))"
  unfolding update_routes_def
  by (intro adds_only_then_do plain_route_table_ids assms)
     (simp add: plain_update_loop assms)

lemma plain_fallback_info:
  assumes "on_plain P"
  shows "adds_only P w (snd (fallback_info info w))"
proof (cases info)
  case None
  have [simp]: "P (Stdout m)" "P (Sleep n)" for m n
    using assms by (simp_all add: on_plain_def)
  show ?thesis
    unfolding fallback_info_def None option.case
    by (intro adds_only_then_do plain_api assms)
       (auto split: list.splits
             intro!: adds_only_then_do plain_api assms adds_only_sleep_after adds_only_emit)
next
  case (Some i)
  then show ?thesis by (simp add: fallback_info_def)
qed


text \<open>The launch adds plain events and \<^verbatim>\<open>run_instances\<close> calls into a subnet of the target zone.\<close>

lemma describe_subnets_result:
  "describe_subnets ids fs w = (Inr found, w1) \<Longrightarrow>
     found = filter (\<lambda>s. (ids = [] \<or> s_SubnetId s \<in> set ids) \<and> list_all (subnet_matches s) fs) (subnets w)
     \<and> subnets w1 = subnets w"
  by (auto simp: describe_subnets_def raises_def returns_def emit_def Let_def
           split: option.splits if_splits)

lemma get_subnet_in_az_Some:
  assumes "get_subnet_in_az z s w = (Inr (Some t), w1)"
  shows "\<exists>sn \<in> set (subnets w). s_SubnetId sn = t \<and> s_AvailabilityZone sn = z"
proof -
  from assms obtain found wa where a: "describe_subnets [s] [] w = (Inr found, wa)"
    by (auto simp: get_subnet_in_az_def then_do_eq_Inr)
  with assms obtain orig rest where f: "found = orig # rest"
    by (cases found) (auto simp: get_subnet_in_az_def)
  from assms a f obtain in_az wb
    where b: "describe_subnets [] [VpcIdFilter [s_VpcId orig], AvailabilityZoneFilter [z]] wa = (Inr in_az, wb)"
    by (auto simp: get_subnet_in_az_def then_do_eq_Inr)
  with assms a f obtain sn more where g: "in_az = sn # more" and t: "t = s_SubnetId sn"
    by (cases in_az) (auto simp: get_subnet_in_az_def)
  have "sn \<in> set in_az"
    by (simp add: g)
  with describe_subnets_result [OF b] describe_subnets_result [OF a]
  have "sn \<in> set (subnets w)" "s_AvailabilityZone sn = z"
    by auto
  with t show ?thesis
    by blast
qed

lemma start_instance_events:
  assumes "\<And>p ok. rp_SubnetId p = ts \<Longrightarrow> P (Api (RunInstances p) ok)"
  shows "adds_only P w (snd (start_instance info ts sg kp ud w))"
proof -
  obtain r w1 where d: "randint 10000 99999 w = (r, w1)"
    by (cases "randint 10000 99999 w")
  then have t: "trace w1 = trace w"
    by (auto simp: randint_def split: list.splits)
  obtain p where s: "start_instance info ts sg kp ud w = run_instances p w1" and p: "rp_SubnetId p = ts"
    by (simp add: start_instance_def d)
  have "adds_only P w1 (snd (run_instances p w1))"
    by (rule adds_only_api [OF api_traces(5)]) (rule assms [OF p])
  then show ?thesis
    using adds_only_trans [OF adds_only_same_trace [OF t]] s by simp
qed

lemma plain_disable_source_dest_check:
  assumes "on_plain P"
  shows "adds_only P w (snd (disable_source_dest_check n w))"
  unfolding disable_source_dest_check_def
  by (intro adds_only_then_do plain_api assms)
     (auto split: list.splits intro!: plain_api assms)

lemma launch_events:
  assumes "on_plain P"
    and "\<And>p ok. \<exists>sn \<in> set (subnets w). s_SubnetId sn = rp_SubnetId p \<and> s_AvailabilityZone sn = z
            \<Longrightarrow> P (Api (RunInstances p) ok)"
  shows "adds_only P w (snd (launch_instance_in_az info z sg kp tpl rd w))"
proof -
  have start: "adds_only P w0 (snd (start_instance info ts sg kp ud w0))"
    if "get_subnet_in_az z (li_subnet_id info) w = (Inr (Some ts), w1)" for ts w1 ud w0
    using get_subnet_in_az_Some [OF that] assms(2)
    by (intro start_instance_events) simp
  have render: "adds_only P w0 (snd (render_user_data tpl gw rd w0))" for gw w0
    by (simp add: render_user_data_def adds_only_same_trace split: option.splits)
  show ?thesis
    unfolding launch_instance_in_az_def
    by (intro adds_only_then_do plain_get_subnet_in_az assms(1))
       (auto split: option.splits
             intro!: adds_only_then_do plain_get_subnet_gateway plain_api
                     plain_disable_source_dest_check assms(1) render start)
qed

lemma provision_events:
  assumes "on_plain P"
    and "\<And>p ok. \<exists>sn \<in> set (subnets w). s_SubnetId sn = rp_SubnetId p \<and> s_AvailabilityZone sn = z
            \<Longrightarrow> P (Api (RunInstances p) ok)"
  shows "adds_only P w (snd (provision a info z w))"
  unfolding provision_def
  by (intro adds_only_then_do launch_events assms)
     (auto intro!: adds_only_then_do plain_api assms(1))

lemma failover_events:
  assumes "on_plain P"
    and "\<And>p ok. \<exists>sn \<in> set (subnets w). s_SubnetId sn = rp_SubnetId p \<and> s_AvailabilityZone sn = z
            \<Longrightarrow> P (Api (RunInstances p) ok)"
  shows "adds_only P w (snd (failover a cur info z w))"
proof -
  have [simp]: "P (Stdout m)" "P (Sleep n)" for m n
    using assms by (simp_all add: on_plain_def)
  have routes: "adds_only P w0 (snd (update_routes cur new rd (sleep 30 w0)))" for w0 new rd
    using adds_only_trans [OF adds_only_sleep_after [OF adds_only_refl] plain_update_routes [OF assms(1)]]
    by simp
  show ?thesis
    unfolding failover_def
    by (intro adds_only_then_do provision_events assms)
       (auto intro!: adds_only_then_do routes adds_only_sleep_after plain_api assms(1))
qed


lemma no_probe_on_plain: "on_plain (\<lambda>e. \<not> is_probe e)"
  by (auto simp: on_plain_def elim: is_plain.elims)

lemma replace_instance_no_probe:
  "adds_only (\<lambda>e. \<not> is_probe e) w (snd (replace_instance a cur info why w))"
proof -
  let ?P = "\<lambda>e. \<not> is_probe e"
  note pl = no_probe_on_plain
  have fo: "adds_only ?P w0 (snd (failover a cur known z (emit (Stdout (LaunchingInAZ z)) w0)))" for known z w0
    using adds_only_trans [OF adds_only_emit failover_events [OF pl]]
    by (metis is_probe.simps(2,4))
  show ?thesis
    unfolding replace_instance_def
    apply (rule adds_only_then_do)
     apply (rule adds_only_trans [OF adds_only_emit plain_fallback_info [OF pl]])
     apply simp
    apply (clarsimp split: option.splits)
    apply (rule adds_only_then_do)
     apply (rule plain_get_other_azs [OF pl])
    apply (auto split: list.splits intro!: fo adds_only_sleep_after adds_only_emit)
    done
qed

lemma filter_probe_none: "list_all (\<lambda>e. \<not> is_probe e) evs \<Longrightarrow> filter is_probe evs = []"
  by (induction evs) auto

lemma check_replacement_events:
  "check_replacement a info w = ((d, r), w') \<Longrightarrow>
   trace w' = trace w @
     (case info of None \<Rightarrow> [] | Some i \<Rightarrow> if info_state i = ''running'' then [the_probe a] else [])"
  by (auto simp: check_replacement_def ping_instance_def the_probe_def emit_def Let_def
           split: option.splits if_splits proc_result.splits)

lemma cycle_probes_list:
  "filter is_probe (new_events w (snd (cycle a cur w))) =
     (case fst (get_instance_info cur w) of
        None \<Rightarrow> []
      | Some i \<Rightarrow> if info_state i = ''running'' then [the_probe a] else [])"
proof -
  let ?Q = "\<lambda>e. \<not> is_probe e"
  obtain info w1 where look: "get_instance_info cur w = (info, w1)"
    by (cases "get_instance_info cur w")
  obtain d r w2 where chk: "check_replacement a info w1 = ((d, r), w2)"
    by (cases "check_replacement a info w1") auto
  define w3 where "w3 = emit (Stdout (status_line cur info r)) w2"
  define w4 where "w4 = snd (cycle a cur w)"
  define probes where "probes = (case info of None \<Rightarrow> [] | Some i \<Rightarrow> if info_state i = ''running'' then [the_probe a] else [])"
  have s1: "adds_only ?Q w w1"
    using plain_get_instance_info [OF no_probe_on_plain, of w cur] look by simp
  have s2: "trace w2 = trace w1 @ probes"
    using check_replacement_events [OF chk] by (simp add: probes_def)
  have s3: "adds_only ?Q w2 w3"
    by (simp add: w3_def adds_only_emit)
  have s4: "adds_only ?Q w3 w4"
  proof (cases d)
    case NoAction
    then show ?thesis
      using look chk by (simp add: w4_def cycle_def w3_def adds_only_sleep_after)
  next
    case (Replace why)
    then show ?thesis
      using look chk replace_instance_no_probe [of w3 a cur info why]
      by (simp add: w4_def cycle_def w3_def)
  qed
  from s1 obtain e1 where t1: "trace w1 = trace w @ e1" "list_all ?Q e1"
    by (elim adds_onlyE)
  from adds_only_trans [OF s3 s4] obtain e2 where t2: "trace w4 = trace w2 @ e2" "list_all ?Q e2"
    by (elim adds_onlyE)
  have "new_events w w4 = e1 @ probes @ e2"
    using t1 t2 s2 by (simp add: new_events_def)
  moreover have "filter is_probe probes = probes"
    by (auto simp: probes_def the_probe_def split: option.splits)
  ultimately have "filter is_probe (new_events w w4) = probes"
    using t1 t2 by (simp add: filter_probe_none)
  then show ?thesis
    by (simp add: w4_def probes_def look)
qed

section \<open>The reachability probe\<close>

text \<open>
  C7. When the watched instance exists and runs, a cycle makes exactly one reachability
  probe: one \<^verbatim>\<open>ping\<close> packet with a wait of two seconds and five seconds for the whole
  process, sent to the part of the destination CIDR before the \<^verbatim>\<open>/\<close> (the instance's own
  address plays no part), and the observation is reachable only for exit status 0: any
  other status, the timeout and a failure to start the process all count as
  unreachable. When the instance gave no info or does not run, no probe is made. The
  first part counts the probes of the whole cycle, the second describes the step that
  probes.
\<close>

theorem one_probe_when_running:
  "filter is_probe (new_events w (snd (cycle a cur w))) =
     (case fst (get_instance_info cur w) of
        None \<Rightarrow> []
      | Some i \<Rightarrow> if info_state i = ''running'' then [the_probe a] else []) \<and>
   (case check_replacement a info w1 of
      ((decision, ping_reachable), w2) \<Rightarrow>
        (case info of
           None \<Rightarrow> w2 = w1 \<and> \<not> ping_reachable
         | Some i \<Rightarrow>
             if info_state i = ''running''
             then new_events w1 w2 = [the_probe a] \<and>
                  ping_reachable =
                    (ping_result w1 (takeWhile (\<lambda>c. c \<noteq> CHR ''/'') (route_destination a)) = Exited 0) \<and>
                  decision = (if ping_reachable then NoAction else Replace Unreachable)
             else w2 = w1 \<and> \<not> ping_reachable))"
proof -
  have "case check_replacement a info w1 of
      ((decision, ping_reachable), w2) \<Rightarrow>
        (case info of
           None \<Rightarrow> w2 = w1 \<and> \<not> ping_reachable
         | Some i \<Rightarrow>
             if info_state i = ''running''
             then new_events w1 w2 = [the_probe a] \<and>
                  ping_reachable =
                    (ping_result w1 (takeWhile (\<lambda>c. c \<noteq> CHR ''/'') (route_destination a)) = Exited 0) \<and>
                  decision = (if ping_reachable then NoAction else Replace Unreachable)
             else w2 = w1 \<and> \<not> ping_reachable)"
    by (auto simp: check_replacement_def ping_instance_def the_probe_def emit_def Let_def
                   new_events_def
             split: option.splits proc_result.splits)
  then show ?thesis
    using cycle_probes_list by blast
qed

text \<open>
  In \<open>demo_world\<close> the instance runs at \<^verbatim>\<open>10.0.1.4\<close>, the destination is
  \<^verbatim>\<open>10.0.0.10/32\<close>, and the only probe of the cycle goes to \<^verbatim>\<open>10.0.0.10\<close>.
\<close>

theorem one_probe_when_running_witness:
  "fst (get_instance_info ''i-1'' demo_world) = Some demo_info \<and>
   info_ip demo_info = Some ''10.0.1.4'' \<and>
   filter is_probe (new_events demo_world (snd (cycle demo_args ''i-1'' demo_world))) =
     [Subprocess [''ping'', ''-c'', ''1'', ''-W'', ''2'', ''10.0.0.10''] 5]"
proof -
  have info: "fst (get_instance_info ''i-1'' demo_world) = Some demo_info"
    by (simp add: get_instance_info_def lookup_instance_def instance_info_of_def
                  describe_instances_def returns_def demo_world_fields demo_instance_def
                  demo_info_def)
  have probe: "the_probe demo_args = Subprocess [''ping'', ''-c'', ''1'', ''-W'', ''2'', ''10.0.0.10''] 5"
    by (simp add: the_probe_def demo_args_def)
  have running: "info_state demo_info = ''running''" "info_ip demo_info = Some ''10.0.1.4''"
    by (simp_all add: demo_info_def)
  show ?thesis
    using one_probe_when_running [of demo_world demo_args "''i-1''"] info probe running
    by simp
qed

section \<open>Provisioning without a subnet\<close>

text \<open>A describe call changes nothing but the trace.\<close>

lemma describe_keeps:
  "\<exists>ok. snd (describe_instances i w) = emit (Api (DescribeInstances [i]) ok) w"
  "\<exists>ok. snd (describe_subnets ids fs w) = emit (Api (DescribeSubnets ids fs) ok) w"
  "\<exists>ok. snd (describe_route_tables fs w) = emit (Api (DescribeRouteTables fs) ok) w"
  "\<exists>ok. snd (describe_availability_zones w) = emit (Api DescribeAvailabilityZones ok) w"
  by (auto simp: api_defs Let_def split: option.splits)

lemma describe_subnets_ok:
  assumes "describe_subnets ids fs w = (Inr found, w1)"
  shows "w1 = emit (Api (DescribeSubnets ids fs) True) w"
  using assms
  by (auto simp: describe_subnets_def raises_def returns_def Let_def split: option.splits if_splits)

lemma describe_subnets_listing:
  assumes "fault w (DescribeSubnets [] fs) = None"
  shows "describe_subnets [] fs w =
           (Inr (filter (\<lambda>s. list_all (subnet_matches s) fs) (subnets w)),
            emit (Api (DescribeSubnets [] fs) True) w)"
  using assms by (simp add: describe_subnets_def returns_def)

text \<open>
  C9. When the source subnet resolves (so its VPC is known), the listing of that VPC's
  subnets in the target zone is answered, and the VPC has no subnet in the target zone,
  \<^verbatim>\<open>launch_instance_in_az\<close> raises \<^verbatim>\<open>Exception("No subnet found in AZ <zone>")\<close>, the
  provisioning error of the specification. No instance is created: the two describe
  calls are all it has done.
\<close>

theorem launch_without_subnet_raises:
  assumes source: "fst (describe_subnets [li_subnet_id info] [] w) = Inr (original # others)"
    and listed: "fault w (DescribeSubnets [] [VpcIdFilter [s_VpcId original], AvailabilityZoneFilter [z]]) = None"
    and none: "filter (\<lambda>s. s_VpcId s = s_VpcId original \<and> s_AvailabilityZone s = z) (subnets w) = []"
  shows "\<exists>w'. launch_instance_in_az info z sg kp tpl rd w =
                 (Inl (PyException (''No subnet found in AZ '' @ z)), w') \<and>
              instances w' = instances w \<and> allocations w' = allocations w \<and>
              new_events w w' =
                [Api (DescribeSubnets [li_subnet_id info] []) True,
                 Api (DescribeSubnets [] [VpcIdFilter [s_VpcId original], AvailabilityZoneFilter [z]]) True]"
proof -
  let ?fs = "[VpcIdFilter [s_VpcId original], AvailabilityZoneFilter [z]]"
  obtain w1 where first: "describe_subnets [li_subnet_id info] [] w = (Inr (original # others), w1)"
    using source by (cases "describe_subnets [li_subnet_id info] [] w") auto
  then have w1: "w1 = emit (Api (DescribeSubnets [li_subnet_id info] []) True) w"
    by (rule describe_subnets_ok)
  have "fault w1 (DescribeSubnets [] ?fs) = None" "subnets w1 = subnets w"
    using listed by (simp_all add: w1 emit_def)
  then have second: "describe_subnets [] ?fs w1 = (Inr [], emit (Api (DescribeSubnets [] ?fs) True) w1)"
    using none describe_subnets_listing [of w1 ?fs] by simp
  define w2 where "w2 = emit (Api (DescribeSubnets [] ?fs) True) w1"
  have "get_subnet_in_az z (li_subnet_id info) w = (Inr None, w2)"
    by (simp add: get_subnet_in_az_def first second w2_def)
  then have "launch_instance_in_az info z sg kp tpl rd w =
               (Inl (PyException (''No subnet found in AZ '' @ z)), w2)"
    by (simp add: launch_instance_in_az_def)
  moreover have "instances w2 = instances w" "allocations w2 = allocations w"
    by (simp_all add: w2_def w1 emit_def)
  moreover have "new_events w w2 =
      [Api (DescribeSubnets [li_subnet_id info] []) True, Api (DescribeSubnets [] ?fs) True]"
    by (simp add: w2_def w1 emit_def new_events_def)
  ultimately show ?thesis
    by blast
qed

text \<open>The demo VPC has no subnet in a zone \<^verbatim>\<open>c\<close>.\<close>

theorem launch_without_subnet_raises_witness:
  "fst (describe_subnets [''s-a''] [] demo_world) =
     Inr [\<lparr>s_SubnetId = ''s-a'', s_VpcId = ''v'', s_AvailabilityZone = ''a'',
           s_CidrBlock = \<lparr>cidr_address = 167772416, cidr_prefixlen = 24\<rparr>\<rparr>] \<and>
   filter (\<lambda>s. s_VpcId s = ''v'' \<and> s_AvailabilityZone s = ''c'') (subnets demo_world) = [] \<and>
   (\<exists>w'. launch_instance_in_az (launch_view demo_info) ''c'' ''sg'' ''key'' ''ud.j2'' ''10.0.0.10/32''
            demo_world = (Inl (PyException ''No subnet found in AZ c''), w') \<and>
          instances w' = instances demo_world \<and> allocations w' = allocations demo_world \<and>
          new_events demo_world w' =
            [Api (DescribeSubnets [''s-a''] []) True,
             Api (DescribeSubnets [] [VpcIdFilter [''v''], AvailabilityZoneFilter [''c'']]) True])"
proof -
  let ?orig = "\<lparr>s_SubnetId = ''s-a'', s_VpcId = ''v'', s_AvailabilityZone = ''a'',
           s_CidrBlock = \<lparr>cidr_address = 167772416, cidr_prefixlen = 24\<rparr>\<rparr>"
  have source: "fst (describe_subnets [li_subnet_id (launch_view demo_info)] [] demo_world) = Inr (?orig # [])"
    by (simp add: describe_subnets_def returns_def demo_world_def launch_view_def demo_info_def)
  have listed: "fault demo_world (DescribeSubnets [] [VpcIdFilter [s_VpcId ?orig], AvailabilityZoneFilter [''c'']]) = None"
    by (simp add: demo_world_fields)
  have none: "filter (\<lambda>s. s_VpcId s = s_VpcId ?orig \<and> s_AvailabilityZone s = ''c'') (subnets demo_world) = []"
    by (simp add: demo_world_def)
  have sid: "li_subnet_id (launch_view demo_info) = ''s-a''"
    by (simp add: launch_view_def demo_info_def)
  show ?thesis
    using launch_without_subnet_raises [OF source listed none, of "''sg''" "''key''" "''ud.j2''" "''10.0.0.10/32''"]
      source none
    by (simp add: sid)
qed

section \<open>The target zone of a replacement\<close>

lemma emit_fields [simp]:
  "subnets (emit e w) = subnets w"
  "availability_zones (emit e w) = availability_zones w"
  "instances (emit e w) = instances w"
  "route_tables (emit e w) = route_tables w"
  "fault (emit e w) = fault w"
  "trace (emit e w) = trace w @ [e]"
  by (simp_all add: emit_def)

lemma sleep_fields [simp]:
  "subnets (sleep n w) = subnets w"
  "availability_zones (sleep n w) = availability_zones w"
  by (simp_all add: sleep_def)

lemma get_instance_info_keeps:
  "\<exists>ok. snd (get_instance_info i w) = emit (Api (DescribeInstances [i]) ok) w"
proof -
  have "snd (get_instance_info i w) = snd (describe_instances i w)"
    by (cases "describe_instances i w"; cases "fst (describe_instances i w)")
       (auto simp: get_instance_info_def lookup_instance_def split: sum.splits)
  then show ?thesis
    using describe_keeps(1) by simp
qed

lemma check_replacement_region:
  "check_replacement a info w = (dr, w') \<Longrightarrow>
     subnets w' = subnets w \<and> availability_zones w' = availability_zones w"
  by (auto simp: check_replacement_def ping_instance_def Let_def
           split: option.splits if_splits proc_result.splits)

lemma describe_availability_zones_result:
  "describe_availability_zones w = (Inr azs, w1) \<Longrightarrow>
     azs = availability_zones w \<and> w1 = emit (Api DescribeAvailabilityZones True) w"
  by (auto simp: describe_availability_zones_def raises_def returns_def Let_def split: option.splits)

lemma fallback_info_region:
  "subnets (snd (fallback_info info w)) = subnets w \<and>
   availability_zones (snd (fallback_info info w)) = availability_zones w"
proof (cases info)
  case None
  show ?thesis
  proof (cases "describe_availability_zones w")
    case (Pair r1 w1)
    note one = this
    show ?thesis
    proof (cases r1)
      case (Inl e)
      with one describe_keeps(4) [of w] show ?thesis
        by (auto simp: fallback_info_def None)
    next
      case (Inr azs)
      with one have w1: "w1 = emit (Api DescribeAvailabilityZones True) w"
        using describe_availability_zones_result by blast
      show ?thesis
      proof (cases azs)
        case Nil
        with one Inr w1 show ?thesis
          by (simp add: fallback_info_def None)
      next
        case (Cons z zs)
        obtain r2 w2 where two: "describe_subnets [] [AvailabilityZoneFilter [z]] w1 = (r2, w2)"
          by (cases "describe_subnets [] [AvailabilityZoneFilter [z]] w1")
        with describe_keeps(2) [of "[]" "[AvailabilityZoneFilter [z]]" w1]
        have "subnets w2 = subnets w" "availability_zones w2 = availability_zones w"
          by (auto simp: w1)
        with one Inr Cons two show ?thesis
          by (cases r2) (auto simp: fallback_info_def None split: list.splits)
      qed
    qed
  qed
next
  case (Some i)
  then show ?thesis by (simp add: fallback_info_def)
qed

lemma fallback_info_known:
  assumes "fst (fallback_info info w) = Inr (Some known)"
  shows "case info of
           Some i \<Rightarrow> li_az known = info_az i
         | None \<Rightarrow> \<exists>rest. availability_zones w = li_az known # rest"
proof (cases info)
  case None
  from assms obtain azs w1 where one: "describe_availability_zones w = (Inr azs, w1)"
    by (cases "describe_availability_zones w"; cases "fst (describe_availability_zones w)")
       (auto simp: fallback_info_def None)
  then have azs: "azs = availability_zones w"
    using describe_availability_zones_result by blast
  from assms one obtain z zs where c: "azs = z # zs"
    by (cases azs) (auto simp: fallback_info_def None)
  from assms one c have "li_az known = z"
    by (cases "describe_subnets [] [AvailabilityZoneFilter [z]] w1";
        cases "fst (describe_subnets [] [AvailabilityZoneFilter [z]] w1)")
       (auto simp: fallback_info_def None split: list.splits)
  with azs c have "availability_zones w = li_az known # zs"
    by simp
  then show ?thesis
    by (auto simp: None)
next
  case (Some i)
  with assms show ?thesis
    by (auto simp: fallback_info_def launch_view_def)
qed

lemma get_other_azs_result:
  assumes "get_other_azs known w = (Inr others, w1)"
  shows "others = filter (\<lambda>x. x \<noteq> known) (availability_zones w)"
    and "subnets w1 = subnets w" and "availability_zones w1 = availability_zones w"
  using assms
  by (auto simp: get_other_azs_def then_do_eq_Inr dest: describe_availability_zones_result)

lemma filter_head_find: "filter P xs = y # ys \<Longrightarrow> find P xs = Some y \<and> P y"
  by (induction xs) (auto split: if_splits)

lemma no_run_on_plain: "on_plain (\<lambda>e. \<not> is_run_instances e)"
  by (auto simp: on_plain_def elim: is_plain.elims)

lemma run_in_zone_on_plain:
  "on_plain (\<lambda>e. \<forall>p ok. e = Api (RunInstances p) ok \<longrightarrow> Q p)"
  by (auto simp: on_plain_def)

lemma replace_instance_target:
  assumes launched: "Api (RunInstances p) ok \<in> set (new_events w (snd (replace_instance a cur info why w)))"
  shows "\<exists>known z.
           (case info of
              Some i \<Rightarrow> known = info_az i
            | None \<Rightarrow> \<exists>rest. availability_zones w = known # rest) \<and>
           find (\<lambda>x. x \<noteq> known) (availability_zones w) = Some z \<and> z \<noteq> known \<and>
           (\<exists>sn \<in> set (subnets w). s_SubnetId sn = rp_SubnetId p \<and> s_AvailabilityZone sn = z) \<and>
           Stdout (LaunchingInAZ z) \<in> set (new_events w (snd (replace_instance a cur info why w)))"
proof -
  let ?N = "\<lambda>e. \<not> is_run_instances e"
  define w0 where "w0 = emit (Stdout (LaunchingReplacement why)) w"
  define w' where "w' = snd (replace_instance a cur info why w)"
  obtain rf w1 where fb: "fallback_info info w0 = (rf, w1)"
    by (cases "fallback_info info w0")
  have a0: "adds_only ?N w w0"
    by (simp add: w0_def adds_only_emit)
  have a1: "adds_only ?N w0 w1"
    using plain_fallback_info [OF no_run_on_plain, of w0 info] fb by simp
  have r1: "subnets w1 = subnets w" "availability_zones w1 = availability_zones w"
    using fallback_info_region [of info w0] fb by (simp_all add: w0_def)
  have absurd: False if "adds_only ?N w w'"
  proof -
    from that obtain evs where "new_events w w' = evs" "list_all ?N evs"
      by (elim adds_onlyE)
    with launched show False
      by (auto simp: w'_def list_all_iff)
  qed
  show ?thesis
  proof (cases rf)
    case (Inl e)
    then have "w' = w1"
      by (simp add: w'_def replace_instance_def fb flip: w0_def)
    with absurd adds_only_trans [OF a0 a1] show ?thesis by blast
  next
    case (Inr known_opt)
    show ?thesis
    proof (cases known_opt)
      case None
      with Inr have "w' = w1"
        by (simp add: w'_def replace_instance_def fb flip: w0_def)
      with absurd adds_only_trans [OF a0 a1] show ?thesis by blast
    next
      case (Some known)
      obtain ro w2 where oa: "get_other_azs (li_az known) w1 = (ro, w2)"
        by (cases "get_other_azs (li_az known) w1")
      have a2: "adds_only ?N w1 w2"
        using plain_get_other_azs [OF no_run_on_plain, of w1 "li_az known"] oa by simp
      note a02 = adds_only_trans [OF adds_only_trans [OF a0 a1] a2]
      have known: "case info of
           Some i \<Rightarrow> li_az known = info_az i
         | None \<Rightarrow> \<exists>rest. availability_zones w = li_az known # rest"
        using fallback_info_known [of info w0 known] fb Inr Some
        by (auto simp: w0_def split: option.splits)
      show ?thesis
      proof (cases ro)
        case (Inl e)
        with Inr Some have "w' = w2"
          by (simp add: w'_def replace_instance_def fb oa flip: w0_def)
        with absurd a02 show ?thesis by blast
      next
        case others: (Inr others)
        note r2 = get_other_azs_result [OF oa [unfolded others]]
        show ?thesis
        proof (cases others)
          case Nil
          with Inr Some others have "w' = sleep 5 (emit (Stdout NoOtherAZsRetry) w2)"
            by (simp add: w'_def replace_instance_def fb oa flip: w0_def)
          moreover have "adds_only ?N w (sleep 5 (emit (Stdout NoOtherAZsRetry) w2))"
            using a02 by (simp add: adds_only_sleep_after adds_only_emit_after)
          ultimately show ?thesis
            using absurd by blast
        next
          case (Cons z zs)
          define w3 where "w3 = emit (Stdout (LaunchingInAZ z)) w2"
          let ?Z = "\<lambda>e. \<forall>p ok. e = Api (RunInstances p) ok \<longrightarrow>
                      (\<exists>sn \<in> set (subnets w). s_SubnetId sn = rp_SubnetId p \<and> s_AvailabilityZone sn = z)"
          from Inr Some others Cons have w': "w' = snd (failover a cur known z w3)"
            by (simp add: w'_def replace_instance_def fb oa w3_def flip: w0_def)
          have sub3: "subnets w3 = subnets w"
            by (simp add: w3_def r2 r1)
          have a3: "adds_only ?Z w3 w'"
            unfolding w' by (rule failover_events [OF run_in_zone_on_plain]) (simp add: sub3)
          from a02 obtain e02 where t02: "trace w2 = trace w @ e02" "list_all ?N e02"
            by (elim adds_onlyE)
          from a3 obtain e3 where t3: "trace w' = trace w3 @ e3" "list_all ?Z e3"
            by (elim adds_onlyE)
          have ev: "new_events w w' = e02 @ Stdout (LaunchingInAZ z) # e3"
            using t02 t3 by (simp add: new_events_def w3_def)
          with launched t02 have "Api (RunInstances p) ok \<in> set e3"
            by (auto simp: w'_def list_all_iff)
          with t3 have zone: "\<exists>sn \<in> set (subnets w). s_SubnetId sn = rp_SubnetId p \<and> s_AvailabilityZone sn = z"
            by (auto simp: list_all_iff)
          from r2(1) Cons r1 have "find (\<lambda>x. x \<noteq> li_az known) (availability_zones w) = Some z \<and> z \<noteq> li_az known"
            using filter_head_find [of "\<lambda>x. x \<noteq> li_az known" "availability_zones w" z zs] by simp
          with known zone ev show ?thesis
            unfolding w'_def [symmetric]
            by (intro exI [of _ "li_az known"] exI [of _ z]) (auto split: option.splits)
        qed
      qed
    qed
  qed
qed


subsection \<open>A whole cycle in the demo region\<close>

lemma decimal_10007: "decimal 10007 = ''10007''"
  by (simp add: decimal.simps)

lemma demo_cycle_trace:
  "new_events demo_world (snd (cycle demo_args ''i-1'' demo_world)) =
     [Api (DescribeInstances [''i-1'']) True,
      Subprocess [''ping'', ''-c'', ''1'', ''-W'', ''2'', ''10.0.0.10''] 5,
      Stdout (StatusRunning ''i-1'' (Some ''10.0.1.4'') ''a'' False),
      Stdout (LaunchingReplacement Unreachable),
      Api DescribeAvailabilityZones True,
      Stdout (LaunchingInAZ ''b''),
      Api (DescribeSubnets [''s-a''] []) True,
      Api (DescribeSubnets [] [VpcIdFilter [''v''], AvailabilityZoneFilter [''b'']]) True,
      Api (DescribeSubnets [''s-b''] []) True,
      Api (RunInstances demo_launch) True,
      Api (WaitInstanceRunning [''i-2'']) True,
      Api (DescribeInstances [''i-2'']) True,
      Api (ModifyNetworkInterfaceAttribute ''eni-2'' False) True,
      Api (WaitInstanceStatusOk [''i-2'']) True,
      Sleep 30,
      Api (DescribeInstances [''i-1'']) True,
      Api (DescribeSubnets [''s-a''] []) True,
      Api (DescribeRouteTables [VpcIdFilter [''v'']]) True,
      Api (DeleteRoute ''rt-1'' ''10.0.0.10/32'') True,
      Api (CreateRoute ''rt-1'' ''10.0.0.10/32'' ''i-2'') True,
      Api (DeleteRoute ''rt-2'' ''10.0.0.10/32'') True,
      Api (CreateRoute ''rt-2'' ''10.0.0.10/32'' ''i-2'') True,
      Api (TerminateInstances [''i-1'']) True,
      Sleep 5]"
  by (simp add: api_defs py_defs demo_world_def demo_instance_def demo_args_def
                has_route_def tables_named_def remove_route_def add_route_def
                mask_eq_exp_minus_1 Let_def new_events_def demo_launch_def decimal_10007)


text \<open>
  C3. In every cycle that launches a replacement (every cycle whose events hold a
  \<^verbatim>\<open>run_instances\<close> call), the target zone is the first zone of the region's list that
  differs from the known zone, so it differs from it; the known zone is the zone of the
  watched instance, or, when the instance gave no info, the first zone of the list
  (the one \<^verbatim>\<open>main\<close> makes up). The instance is launched into a subnet of the target zone.
\<close>

theorem target_zone_is_first_other:
  assumes launched: "Api (RunInstances p) ok \<in> set (new_events w (snd (cycle a cur w)))"
  shows "\<exists>known z.
           (case fst (get_instance_info cur w) of
              Some i \<Rightarrow> known = info_az i
            | None \<Rightarrow> \<exists>rest. availability_zones w = known # rest) \<and>
           find (\<lambda>x. x \<noteq> known) (availability_zones w) = Some z \<and> z \<noteq> known \<and>
           (\<exists>sn \<in> set (subnets w). s_SubnetId sn = rp_SubnetId p \<and> s_AvailabilityZone sn = z) \<and>
           Stdout (LaunchingInAZ z) \<in> set (new_events w (snd (cycle a cur w)))"
proof -
  let ?N = "\<lambda>e. \<not> is_run_instances e"
  obtain info w1 where look: "get_instance_info cur w = (info, w1)"
    by (cases "get_instance_info cur w")
  obtain d r w2 where chk: "check_replacement a info w1 = ((d, r), w2)"
    by (cases "check_replacement a info w1") auto
  define w3 where "w3 = emit (Stdout (status_line cur info r)) w2"
  define w' where "w' = snd (cycle a cur w)"
  have s1: "adds_only ?N w w1"
    using plain_get_instance_info [OF no_run_on_plain, of w cur] look by simp
  have s2: "adds_only ?N w1 w2"
    by (rule adds_onlyI [OF check_replacement_events [OF chk]])
       (simp add: the_probe_def split: option.splits)
  have s3: "adds_only ?N w2 w3"
    by (simp add: w3_def adds_only_emit)
  note s = adds_only_trans [OF adds_only_trans [OF s1 s2] s3]
  have region: "subnets w3 = subnets w" "availability_zones w3 = availability_zones w"
    using get_instance_info_keeps [of cur w] look check_replacement_region [OF chk]
    by (auto simp: w3_def)
  from s obtain pre where pre: "trace w3 = trace w @ pre" "list_all ?N pre"
    by (elim adds_onlyE)
  show ?thesis
  proof (cases d)
    case NoAction
    then have "w' = sleep 5 w3"
      using look chk by (simp add: w'_def cycle_def w3_def)
    then have "new_events w w' = pre @ [Sleep 5]"
      using pre by (simp add: new_events_def sleep_def)
    with launched pre show ?thesis
      by (auto simp: w'_def list_all_iff)
  next
    case (Replace why)
    then have w': "w' = snd (replace_instance a cur info why w3)"
      using look chk by (simp add: w'_def cycle_def w3_def)
    have "adds_only (\<lambda>e. \<not> is_probe e) w3 w'"
      unfolding w' by (rule replace_instance_no_probe)
    then obtain post where post: "trace w' = trace w3 @ post" "new_events w3 w' = post"
      by (elim adds_onlyE)
    have split: "new_events w w' = pre @ post"
      using pre post by (simp add: new_events_def)
    from launched have "Api (RunInstances p) ok \<in> set (new_events w w')"
      by (simp add: w'_def)
    with split pre have "Api (RunInstances p) ok \<in> set post"
      by (auto simp: list_all_iff)
    then have "Api (RunInstances p) ok \<in> set (new_events w3 (snd (replace_instance a cur info why w3)))"
      using post by (simp add: w')
    from replace_instance_target [OF this]
    obtain known z where
      "case info of Some i \<Rightarrow> known = info_az i
         | None \<Rightarrow> \<exists>rest. availability_zones w3 = known # rest"
      "find (\<lambda>x. x \<noteq> known) (availability_zones w3) = Some z" "z \<noteq> known"
      "\<exists>sn \<in> set (subnets w3). s_SubnetId sn = rp_SubnetId p \<and> s_AvailabilityZone sn = z"
      "Stdout (LaunchingInAZ z) \<in> set (new_events w3 w')"
      unfolding w' by blast
    then show ?thesis
      using split post look unfolding region w'_def [symmetric]
      by (intro exI [of _ known] exI [of _ z]) (auto split: option.splits)
  qed
qed

theorem target_zone_is_first_other_witness:
  "Api (RunInstances demo_launch) True \<in>
     set (new_events demo_world (snd (cycle demo_args ''i-1'' demo_world))) \<and>
   fst (get_instance_info ''i-1'' demo_world) = Some demo_info \<and>
   info_az demo_info = ''a'' \<and>
   availability_zones demo_world = [''a'', ''b''] \<and>
   Stdout (LaunchingInAZ ''b'') \<in>
     set (new_events demo_world (snd (cycle demo_args ''i-1'' demo_world))) \<and>
   (\<exists>known z.
      known = ''a'' \<and> find (\<lambda>x. x \<noteq> known) (availability_zones demo_world) = Some z \<and>
      z \<noteq> known \<and>
      (\<exists>sn. sn \<in> set (subnets demo_world) \<and> s_SubnetId sn = rp_SubnetId demo_launch \<and>
            s_AvailabilityZone sn = z) \<and>
      Stdout (LaunchingInAZ z) \<in>
        set (new_events demo_world (snd (cycle demo_args ''i-1'' demo_world))))"
proof -
  have launched: "Api (RunInstances demo_launch) True \<in>
     set (new_events demo_world (snd (cycle demo_args ''i-1'' demo_world)))"
    by (simp add: demo_cycle_trace)
  have info: "fst (get_instance_info ''i-1'' demo_world) = Some demo_info"
    by (simp add: get_instance_info_def lookup_instance_def instance_info_of_def
                  describe_instances_def returns_def demo_world_fields demo_instance_def
                  demo_info_def)
  have az: "info_az demo_info = ''a''"
    by (simp add: demo_info_def)
  have said: "Stdout (LaunchingInAZ ''b'') \<in>
     set (new_events demo_world (snd (cycle demo_args ''i-1'' demo_world)))"
    by (simp add: demo_cycle_trace)
  show ?thesis
    using target_zone_is_first_other [OF launched] launched info az said
    by (auto simp: demo_world_fields)
qed

section \<open>The order of the provisioning steps\<close>

lemma api_calls_append [simp]: "api_calls (xs @ ys) = api_calls xs @ api_calls ys"
  by (induction xs rule: api_calls.induct) auto

lemma steps_of_append [simp]: "steps_of (xs @ ys) = steps_of xs @ steps_of ys"
  by (simp add: steps_of_def)

lemma steps_of_simps [simp]:
  "steps_of [] = []"
  "steps_of (Api c ok # evs) = (if is_describe c then steps_of evs else c # steps_of evs)"
  "steps_of (Sleep n # evs) = steps_of evs"
  "steps_of (Stdout m # evs) = steps_of evs"
  "steps_of (Subprocess argv t # evs) = steps_of evs"
  by (simp_all add: steps_of_def)

lemma steps_of_describes:
  "list_all (\<lambda>e. \<exists>c ok. e = Api c ok \<and> is_describe c) evs \<Longrightarrow> steps_of evs = []"
  by (induction evs) auto

lemma describes_api:
  assumes "on_describe P"
  shows "adds_only P w (snd (describe_instances i w))"
    and "adds_only P w (snd (describe_subnets ids fs w))"
    and "adds_only P w (snd (describe_route_tables fs w))"
    and "adds_only P w (snd (describe_availability_zones w))"
  using assms by (auto intro!: adds_only_api api_traces simp: on_describe_def)

lemma describes_get_subnet_gateway:
  assumes "on_describe P"
  shows "adds_only P w (snd (get_subnet_gateway s w))"
  unfolding get_subnet_gateway_def
  by (intro adds_only_then_do describes_api assms) (auto split: list.splits sum.splits)

lemma describes_get_subnet_in_az:
  assumes "on_describe P"
  shows "adds_only P w (snd (get_subnet_in_az z s w))"
  unfolding get_subnet_in_az_def
  by (intro adds_only_then_do describes_api assms)
     (auto split: list.splits intro!: adds_only_then_do describes_api assms)

lemma on_describe_describes: "on_describe (\<lambda>e. \<exists>c ok. e = Api c ok \<and> is_describe c)"
  by (simp add: on_describe_def)

text \<open>A call that returned has added its event, marked as returned.\<close>

lemma api_returned:
  "run_instances p w = (Inr n, w') \<Longrightarrow> trace w' = trace w @ [Api (RunInstances p) True]"
  "wait_instance_running i w = (Inr u, w') \<Longrightarrow> trace w' = trace w @ [Api (WaitInstanceRunning [i]) True]"
  "wait_instance_status_ok i w = (Inr u, w') \<Longrightarrow> trace w' = trace w @ [Api (WaitInstanceStatusOk [i]) True]"
  "modify_network_interface_attribute eni v w = (Inr u, w') \<Longrightarrow>
     trace w' = trace w @ [Api (ModifyNetworkInterfaceAttribute eni v) True]"
  "describe_instances i w = (Inr resp, w') \<Longrightarrow> trace w' = trace w @ [Api (DescribeInstances [i]) True]"
  by (auto simp: api_defs Let_def split: option.splits list.splits if_splits)

lemma start_instance_returned:
  assumes "start_instance info ts sg kp ud w = (Inr n, w')"
  shows "\<exists>p. rp_SubnetId p = ts \<and> trace w' = trace w @ [Api (RunInstances p) True]"
proof -
  obtain r w1 where d: "randint 10000 99999 w = (r, w1)"
    by (cases "randint 10000 99999 w")
  then have t: "trace w1 = trace w"
    by (auto simp: randint_def split: list.splits)
  obtain p where s: "start_instance info ts sg kp ud w = run_instances p w1" and p: "rp_SubnetId p = ts"
    by (simp add: start_instance_def d)
  with assms api_returned(1) [of p w1 n w'] t show ?thesis
    by auto
qed

lemma disable_source_dest_check_returned:
  assumes "disable_source_dest_check n w = (Inr u, w')"
  shows "\<exists>eni. trace w' = trace w @ [Api (DescribeInstances [n]) True,
                                       Api (ModifyNetworkInterfaceAttribute eni False) True]"
proof -
  from assms obtain resp w1 where d: "describe_instances n w = (Inr resp, w1)"
    and rest: "(case resp of
         [] \<Rightarrow> (Inl IndexError, w1)
       | reservation # _ \<Rightarrow>
           (case reservation of
              [] \<Rightarrow> (Inl IndexError, w1)
            | instance # _ \<Rightarrow>
                (case i_NetworkInterfaces instance of
                   [] \<Rightarrow> (Inl IndexError, w1)
                 | eni_id # _ \<Rightarrow> modify_network_interface_attribute eni_id False w1))) = (Inr u, w')"
    by (auto simp: disable_source_dest_check_def then_do_eq_Inr)
  from rest obtain eni where "modify_network_interface_attribute eni False w1 = (Inr u, w')"
    by (auto split: list.splits)
  with api_returned(4,5) d show ?thesis
    by fastforce
qed

lemma demo_provision:
  "provision demo_args (launch_view demo_info) ''b'' demo_world =
     (Inr ''i-2'', snd (provision demo_args (launch_view demo_info) ''b'' demo_world)) \<and>
   new_events demo_world (snd (provision demo_args (launch_view demo_info) ''b'' demo_world)) =
     [Api (DescribeSubnets [''s-a''] []) True,
      Api (DescribeSubnets [] [VpcIdFilter [''v''], AvailabilityZoneFilter [''b'']]) True,
      Api (DescribeSubnets [''s-b''] []) True,
      Api (RunInstances demo_launch) True,
      Api (WaitInstanceRunning [''i-2'']) True,
      Api (DescribeInstances [''i-2'']) True,
      Api (ModifyNetworkInterfaceAttribute ''eni-2'' False) True,
      Api (WaitInstanceStatusOk [''i-2'']) True]"
  by (simp add: api_defs py_defs demo_world_def demo_instance_def demo_args_def demo_info_def
                mask_eq_exp_minus_1 Let_def new_events_def demo_launch_def decimal_10007)

text \<open>
  C2, as the specification has it: create the instance, wait until it runs, wait until
  its status checks pass, and finally switch off the source/destination check. The
  provisioning of the demo region succeeds and does otherwise: the check is switched
  off inside \<^verbatim>\<open>launch_instance_in_az\<close>, before \<^verbatim>\<open>main\<close> waits for the status checks, so
  the wait for the status checks does not come before the change of the interface.
\<close>

theorem provisioning_order_counterexample:
  "fst (provision demo_args (launch_view demo_info) ''b'' demo_world) = Inr ''i-2'' \<and>
   steps_of (new_events demo_world (snd (provision demo_args (launch_view demo_info) ''b'' demo_world))) =
     [RunInstances demo_launch, WaitInstanceRunning [''i-2''],
      ModifyNetworkInterfaceAttribute ''eni-2'' False, WaitInstanceStatusOk [''i-2'']] \<and>
   \<not> comes_before (WaitInstanceStatusOk [''i-2'']) (ModifyNetworkInterfaceAttribute ''eni-2'' False)
       (steps_of (new_events demo_world
          (snd (provision demo_args (launch_view demo_info) ''b'' demo_world))))"
proof -
  note run = demo_provision
  have "fst (provision demo_args (launch_view demo_info) ''b'' demo_world) = Inr ''i-2''"
    using run by (metis fst_conv)
  moreover have steps: "steps_of (new_events demo_world
      (snd (provision demo_args (launch_view demo_info) ''b'' demo_world))) =
     [RunInstances demo_launch, WaitInstanceRunning [''i-2''],
      ModifyNetworkInterfaceAttribute ''eni-2'' False, WaitInstanceStatusOk [''i-2'']]"
    using run by simp
  moreover have "\<not> comes_before (WaitInstanceStatusOk [''i-2''])
      (ModifyNetworkInterfaceAttribute ''eni-2'' False)
      [RunInstances demo_launch, WaitInstanceRunning [''i-2''],
       ModifyNetworkInterfaceAttribute ''eni-2'' False, WaitInstanceStatusOk [''i-2'']]"
    by (simp add: comes_before_def)
  ultimately show ?thesis
    by simp
qed

text \<open>
  C2, amended. Every provisioning that succeeds makes its steps in this order: create
  the instance, wait until it runs, switch off the source/destination check of its first
  network interface, and then wait until its status checks pass.
\<close>

theorem provisioning_order:
  assumes "provision a info z w = (Inr new, w')"
  shows "\<exists>p eni. steps_of (new_events w w') =
           [RunInstances p, WaitInstanceRunning [new],
            ModifyNetworkInterfaceAttribute eni False, WaitInstanceStatusOk [new]]"
proof -
  let ?D = "\<lambda>e. \<exists>c ok. e = Api c ok \<and> is_describe c"
  from assms obtain w6 where launch:
      "launch_instance_in_az info z (security_group a) (keypair a) (user_data_file a)
         (route_destination a) w = (Inr new, w6)"
    and status: "wait_instance_status_ok new w6 = (Inr (), w')"
    by (auto simp: provision_def then_do_eq_Inr)
  from launch obtain found w1 where g: "get_subnet_in_az z (li_subnet_id info) w = (Inr found, w1)"
    and rest1: "(case found of
         None \<Rightarrow> (Inl (PyException (''No subnet found in AZ '' @ z)), w1)
       | Some target_subnet \<Rightarrow>
           if target_subnet = [] then (Inl (PyException (''No subnet found in AZ '' @ z)), w1)
           else
             then_do (get_subnet_gateway target_subnet w1) (\<lambda>az_subnet_gateway w2.
             then_do (render_user_data (user_data_file a) az_subnet_gateway (route_destination a) w2)
               (\<lambda>user_data w3.
             then_do (start_instance info target_subnet (security_group a) (keypair a) user_data w3)
               (\<lambda>new_instance_id w4.
             then_do (wait_instance_running new_instance_id w4) (\<lambda>_ w5.
             then_do (disable_source_dest_check new_instance_id w5) (\<lambda>_ w6.
               (Inr new_instance_id, w6))))))) = (Inr new, w6)"
    unfolding launch_instance_in_az_def then_do_eq_Inr by blast
  from rest1 obtain ts where found: "found = Some ts" "ts \<noteq> []"
    by (cases found) (auto split: if_splits)
  from rest1 found obtain gw w2 ud w3 w4 w5 u1 u2
    where gate: "get_subnet_gateway ts w1 = (Inr gw, w2)"
      and render: "render_user_data (user_data_file a) gw (route_destination a) w2 = (Inr ud, w3)"
      and start: "start_instance info ts (security_group a) (keypair a) ud w3 = (Inr new, w4)"
      and running: "wait_instance_running new w4 = (Inr u1, w5)"
      and disable: "disable_source_dest_check new w5 = (Inr u2, w6)"
    by (auto simp: then_do_eq_Inr)
  have "adds_only ?D w w1"
    using describes_get_subnet_in_az [OF on_describe_describes, of w z "li_subnet_id info"] g by simp
  then obtain e1 where e1: "trace w1 = trace w @ e1" "list_all ?D e1"
    by (elim adds_onlyE)
  have "adds_only ?D w1 w2"
    using describes_get_subnet_gateway [OF on_describe_describes, of w1 ts] gate by simp
  then obtain e2 where e2: "trace w2 = trace w1 @ e2" "list_all ?D e2"
    by (elim adds_onlyE)
  have e3: "w3 = w2"
    using render by (auto simp: render_user_data_def split: option.splits)
  from start_instance_returned [OF start] obtain p where e4: "trace w4 = trace w3 @ [Api (RunInstances p) True]"
    by blast
  note e5 = api_returned(2) [OF running]
  from disable_source_dest_check_returned [OF disable] obtain eni
    where e6: "trace w6 = trace w5 @ [Api (DescribeInstances [new]) True,
                                      Api (ModifyNetworkInterfaceAttribute eni False) True]"
    by blast
  note e7 = api_returned(3) [OF status]
  have "new_events w w' = e1 @ e2 @ [Api (RunInstances p) True, Api (WaitInstanceRunning [new]) True,
          Api (DescribeInstances [new]) True, Api (ModifyNetworkInterfaceAttribute eni False) True,
          Api (WaitInstanceStatusOk [new]) True]"
    by (simp add: new_events_def e7 e6 e5 e4 e3 e2 e1)
  then have "steps_of (new_events w w') =
           [RunInstances p, WaitInstanceRunning [new],
            ModifyNetworkInterfaceAttribute eni False, WaitInstanceStatusOk [new]]"
    using e1 e2 by (simp add: steps_of_describes)
  then show ?thesis
    by blast
qed

theorem provisioning_order_witness:
  "provision demo_args (launch_view demo_info) ''b'' demo_world =
     (Inr ''i-2'', snd (provision demo_args (launch_view demo_info) ''b'' demo_world)) \<and>
   (\<exists>p eni. steps_of (new_events demo_world
               (snd (provision demo_args (launch_view demo_info) ''b'' demo_world))) =
      [RunInstances p, WaitInstanceRunning [''i-2''],
       ModifyNetworkInterfaceAttribute eni False, WaitInstanceStatusOk [''i-2'']])"
proof -
  have run: "provision demo_args (launch_view demo_info) ''b'' demo_world =
     (Inr ''i-2'', snd (provision demo_args (launch_view demo_info) ''b'' demo_world))"
    using demo_provision by blast
  from provisioning_order [OF run] run show ?thesis
    by blast
qed

section \<open>A cycle that cannot replace the instance\<close>

lemma describe_zones_listing:
  "fault w DescribeAvailabilityZones = None \<Longrightarrow>
     describe_availability_zones w =
       (Inr (availability_zones w), emit (Api DescribeAvailabilityZones True) w)"
  by (simp add: describe_availability_zones_def returns_def)

lemma demo_gone:
  "fst (get_instance_info ''i-1'' demo_bare) = None"
  "fst (get_instance_info ''i-1'' demo_stranded) = None"
  by (simp_all add: get_instance_info_def lookup_instance_def describe_instances_def raises_def
                    demo_bare_def demo_stranded_def demo_world_fields)

text \<open>
  C8, as the specification has it: with the instance gone, the cycle is skipped and
  tried again after five seconds also when the other zone has no subnet. In
  \<open>demo_stranded\<close> the instance is gone, zone \<^verbatim>\<open>b\<close> is the other zone and the VPC has no
  subnet in it: \<^verbatim>\<open>launch_instance_in_az\<close> raises, nothing in \<^verbatim>\<open>main\<close> catches the exception
  inside the loop, and the process exits with status 1 in its first turn. No
  \<^verbatim>\<open>run_instances\<close> call is made, but there is no second turn either.
\<close>

theorem skip_without_zone_or_subnet_counterexample:
  "fst (get_instance_info ''i-1'' demo_stranded) = None \<and>
   filter (\<lambda>x. x \<noteq> ''a'') (availability_zones demo_stranded) = [''b''] \<and>
   filter (\<lambda>s. s_AvailabilityZone s = ''b'') (subnets demo_stranded) = [] \<and>
   fst (cycle demo_args ''i-1'' demo_stranded) = Inl (PyException ''No subnet found in AZ b'') \<and>
   fst (main (Suc (Suc 0)) demo_args demo_stranded) = Some 1 \<and>
   filter is_run_instances (trace (snd (main (Suc (Suc 0)) demo_args demo_stranded))) = []"
proof -
  have run: "cycle demo_args ''i-1'' demo_stranded =
     (Inl (PyException ''No subnet found in AZ b''),
      demo_stranded\<lparr>trace :=
        [Api (DescribeInstances [''i-1'']) False, Stdout (StatusNotFound ''i-1''),
         Stdout (LaunchingReplacement NotFound), Api DescribeAvailabilityZones True,
         Api (DescribeSubnets [] [AvailabilityZoneFilter [''a'']]) True,
         Api DescribeAvailabilityZones True, Stdout (LaunchingInAZ ''b''),
         Api (DescribeSubnets [''s-a''] []) True,
         Api (DescribeSubnets [] [VpcIdFilter [''v''], AvailabilityZoneFilter [''b'']]) True]\<rparr>)"
    by (simp add: api_defs py_defs demo_stranded_def demo_world_def demo_args_def Let_def)
  have "filter (\<lambda>x. x \<noteq> ''a'') (availability_zones demo_stranded) = [''b'']"
    "filter (\<lambda>s. s_AvailabilityZone s = ''b'') (subnets demo_stranded) = []"
    by (simp_all add: demo_stranded_def demo_world_def)
  moreover have "instance_id demo_args = ''i-1''"
    by (simp add: demo_args_def)
  ultimately show ?thesis
    using demo_gone(2) by (simp add: main_def run emit_def)
qed

text \<open>
  C8, amended. When the instance gives no info, the zones are listed with a first zone,
  the subnets of that zone are listed, and either that first zone has no subnet or the
  region has no zone other than it, then the cycle only describes, prints and sleeps
  five seconds: it makes no provisioning call, changes nothing of the world but the
  trace, and returns the instance it was given, so the next turn of the loop starts as
  this one did (the loop carries no other state, hence no failure counter).
\<close>

theorem skip_without_zone_or_subnet:
  assumes gone: "fst (get_instance_info cur w) = None"
    and zones: "fault w DescribeAvailabilityZones = None" "availability_zones w = z # zs"
    and listed: "fault w (DescribeSubnets [] [AvailabilityZoneFilter [z]]) = None"
    and lacking: "filter (\<lambda>s. s_AvailabilityZone s = z) (subnets w) = [] \<or>
                  filter (\<lambda>x. x \<noteq> z) (z # zs) = []"
  shows "\<exists>ok. cycle a cur w =
           (Inr cur,
            w\<lparr>trace := trace w @
                 [Api (DescribeInstances [cur]) ok, Stdout (StatusNotFound cur),
                  Stdout (LaunchingReplacement NotFound), Api DescribeAvailabilityZones True,
                  Api (DescribeSubnets [] [AvailabilityZoneFilter [z]]) True] @
                 (if filter (\<lambda>s. s_AvailabilityZone s = z) (subnets w) = []
                  then [Stdout NoSubnetsRetry, Sleep 5]
                  else [Api DescribeAvailabilityZones True, Stdout NoOtherAZsRetry, Sleep 5])\<rparr>) \<and>
           main_loop (Suc n) a cur w = main_loop n a cur (snd (cycle a cur w))"
proof -
  obtain ok where kept: "snd (get_instance_info cur w) = emit (Api (DescribeInstances [cur]) ok) w"
    using get_instance_info_keeps by blast
  define w1 where "w1 = emit (Api (DescribeInstances [cur]) ok) w"
  define w2 where "w2 = emit (Stdout (LaunchingReplacement NotFound)) (emit (Stdout (StatusNotFound cur)) w1)"
  define w3 where "w3 = emit (Api DescribeAvailabilityZones True) w2"
  define w4 where "w4 = emit (Api (DescribeSubnets [] [AvailabilityZoneFilter [z]]) True) w3"
  have look: "get_instance_info cur w = (None, w1)"
    using gone kept by (cases "get_instance_info cur w") (simp add: w1_def)
  have cyc: "cycle a cur w = replace_instance a cur None NotFound (emit (Stdout (StatusNotFound cur)) w1)"
    by (simp add: cycle_def look check_replacement_def status_line_def)
  have z1: "describe_availability_zones w2 = (Inr (z # zs), w3)"
    using describe_zones_listing [of w2] zones by (simp add: w2_def w1_def w3_def)
  have s1: "describe_subnets [] [AvailabilityZoneFilter [z]] w3 =
              (Inr (filter (\<lambda>s. s_AvailabilityZone s = z) (subnets w)), w4)"
    using describe_subnets_listing [of w3 "[AvailabilityZoneFilter [z]]"] listed
    by (simp add: w4_def w3_def w2_def w1_def)
  show ?thesis
  proof (cases "filter (\<lambda>s. s_AvailabilityZone s = z) (subnets w)")
    case Nil
    then have "cycle a cur w = (Inr cur, sleep 5 (emit (Stdout NoSubnetsRetry) w4))"
      by (simp add: cyc replace_instance_def fallback_info_def z1 s1 flip: w2_def)
    then show ?thesis
      using Nil by (intro exI [of _ ok]) (auto simp: w4_def w3_def w2_def w1_def sleep_def emit_def)
  next
    case (Cons s more_subnets)
    with lacking have single: "filter (\<lambda>x. x \<noteq> z) (z # zs) = []"
      by auto
    define w5 where "w5 = emit (Api DescribeAvailabilityZones True) w4"
    have z2: "describe_availability_zones w4 = (Inr (z # zs), w5)"
      using describe_zones_listing [of w4] zones by (simp add: w5_def w4_def w3_def w2_def w1_def)
    have "cycle a cur w = (Inr cur, sleep 5 (emit (Stdout NoOtherAZsRetry) w5))"
      using single
      by (simp add: cyc replace_instance_def fallback_info_def z1 s1 Cons get_other_azs_def z2
               flip: w2_def)
    then show ?thesis
      using Cons by (intro exI [of _ ok]) (auto simp: w5_def w4_def w3_def w2_def w1_def sleep_def emit_def)
  qed
qed

theorem skip_without_zone_or_subnet_witness:
  "fst (get_instance_info ''i-1'' demo_bare) = None \<and>
   availability_zones demo_bare = [''a'', ''b''] \<and>
   filter (\<lambda>s. s_AvailabilityZone s = ''a'') (subnets demo_bare) = [] \<and>
   (\<exists>ok. cycle demo_args ''i-1'' demo_bare =
           (Inr ''i-1'',
            demo_bare\<lparr>trace :=
                 [Api (DescribeInstances [''i-1'']) ok, Stdout (StatusNotFound ''i-1''),
                  Stdout (LaunchingReplacement NotFound), Api DescribeAvailabilityZones True,
                  Api (DescribeSubnets [] [AvailabilityZoneFilter [''a'']]) True,
                  Stdout NoSubnetsRetry, Sleep 5]\<rparr>) \<and>
          main_loop (Suc 0) demo_args ''i-1'' demo_bare =
            main_loop 0 demo_args ''i-1'' (snd (cycle demo_args ''i-1'' demo_bare)))"
proof -
  have zones: "fault demo_bare DescribeAvailabilityZones = None"
    "availability_zones demo_bare = ''a'' # [''b'']"
    by (simp_all add: demo_bare_def demo_world_fields)
  have listed: "fault demo_bare (DescribeSubnets [] [AvailabilityZoneFilter [''a'']]) = None"
    by (simp add: demo_bare_def demo_world_fields)
  have none: "filter (\<lambda>s. s_AvailabilityZone s = ''a'') (subnets demo_bare) = []"
    by (simp add: demo_bare_def)
  then have lacking: "filter (\<lambda>s. s_AvailabilityZone s = ''a'') (subnets demo_bare) = [] \<or>
                  filter (\<lambda>x. x \<noteq> ''a'') (''a'' # [''b'']) = []"
    by simp
  have "trace demo_bare = []"
    by (simp add: demo_bare_def demo_world_fields)
  with skip_without_zone_or_subnet [OF demo_gone(1) zones listed lacking, of demo_args 0]
  show ?thesis
    using demo_gone(1) zones(2) none by simp
qed

section \<open>Route reconciliation, table by table\<close>

lemma replace_route_trace:
  "\<exists>ok1 ok2. trace (replace_route rt new c w) =
     trace w @ [Api (DeleteRoute rt c) ok1, Api (CreateRoute rt c new) ok2]"
proof -
  obtain ok1 where d: "trace (snd (delete_route rt c w)) = trace w @ [Api (DeleteRoute rt c) ok1]"
    using api_traces(9) by blast
  obtain ok2 where "trace (snd (create_route rt c new (snd (delete_route rt c w)))) =
      trace (snd (delete_route rt c w)) @ [Api (CreateRoute rt c new) ok2]"
    using api_traces(10) by blast
  with d show ?thesis
    by (auto simp: replace_route_def)
qed

lemma update_loop_calls:
  "\<exists>evs. trace (update_loop rts new c w) = trace w @ evs \<and>
         api_calls evs = concat (map (\<lambda>rt. [DeleteRoute rt c, CreateRoute rt c new]) rts)"
proof (induction rts arbitrary: w)
  case Nil
  show ?case by simp
next
  case (Cons rt rts)
  obtain ok1 ok2 where one: "trace (replace_route rt new c w) =
     trace w @ [Api (DeleteRoute rt c) ok1, Api (CreateRoute rt c new) ok2]"
    using replace_route_trace by blast
  from Cons.IH [of "replace_route rt new c w"] obtain evs
    where rest: "trace (update_loop rts new c (replace_route rt new c w)) =
                   trace (replace_route rt new c w) @ evs"
      and calls: "api_calls evs = concat (map (\<lambda>rt. [DeleteRoute rt c, CreateRoute rt c new]) rts)"
    by blast
  show ?case
    by (rule exI [of _ "[Api (DeleteRoute rt c) ok1, Api (CreateRoute rt c new) ok2] @ evs"])
       (simp add: rest one calls)
qed

text \<open>
  C6. Once the route tables are enumerated, \<^verbatim>\<open>update_routes\<close> returns normally whatever
  the outcome of its calls: for each table, in order, it calls \<^verbatim>\<open>delete_route\<close> and then
  \<^verbatim>\<open>create_route\<close>, and these are all the calls it makes. So a delete that finds no
  route is no error, and a delete or a create that raises on one table keeps neither
  the create of that table nor the work on the tables after it from being attempted.
\<close>

theorem every_table_is_processed:
  assumes "route_table_ids old new w = (Inr rts, w1)"
  shows "\<exists>w'. update_routes old new c w = (Inr (), w') \<and>
              api_calls (new_events w1 w') =
                concat (map (\<lambda>rt. [DeleteRoute rt c, CreateRoute rt c new]) rts)"
proof -
  have "update_routes old new c w = (Inr (), update_loop rts new c w1)"
    by (simp add: update_routes_def assms)
  moreover obtain evs where "trace (update_loop rts new c w1) = trace w1 @ evs"
      "api_calls evs = concat (map (\<lambda>rt. [DeleteRoute rt c, CreateRoute rt c new]) rts)"
    using update_loop_calls by blast
  ultimately show ?thesis
    by (simp add: new_events_def)
qed

text \<open>
  In \<open>demo_patchy\<close> the delete on the first table raises (it has no such route) and so
  does the create (the provider refuses it); the second table is still worked on.
\<close>

lemma demo_patchy_ids:
  "route_table_ids ''i-1'' ''i-2'' demo_patchy =
     (Inr [''rt-1'', ''rt-2''],
      demo_patchy\<lparr>trace :=
        [Api (DescribeInstances [''i-1'']) True, Api (DescribeSubnets [''s-a''] []) True,
         Api (DescribeRouteTables [VpcIdFilter [''v'']]) True]\<rparr>)"
  by (simp add: api_defs py_defs demo_patchy_def demo_launched_def demo_world_def
                demo_instance_def Let_def)

lemma demo_patchy_run:
  "new_events demo_patchy (snd (update_routes ''i-1'' ''i-2'' ''10.0.0.10/32'' demo_patchy)) =
     [Api (DescribeInstances [''i-1'']) True, Api (DescribeSubnets [''s-a''] []) True,
      Api (DescribeRouteTables [VpcIdFilter [''v'']]) True,
      Api (DeleteRoute ''rt-1'' ''10.0.0.10/32'') False,
      Api (CreateRoute ''rt-1'' ''10.0.0.10/32'' ''i-2'') False,
      Api (DeleteRoute ''rt-2'' ''10.0.0.10/32'') True,
      Api (CreateRoute ''rt-2'' ''10.0.0.10/32'' ''i-2'') True]"
  by (simp add: api_defs py_defs demo_patchy_def demo_launched_def demo_world_def
                demo_instance_def Let_def new_events_def
                has_route_def tables_named_def remove_route_def add_route_def)

theorem every_table_is_processed_witness:
  "fst (route_table_ids ''i-1'' ''i-2'' demo_patchy) = Inr [''rt-1'', ''rt-2''] \<and>
   Api (DeleteRoute ''rt-1'' ''10.0.0.10/32'') False \<in>
     set (new_events demo_patchy (snd (update_routes ''i-1'' ''i-2'' ''10.0.0.10/32'' demo_patchy))) \<and>
   Api (CreateRoute ''rt-1'' ''10.0.0.10/32'' ''i-2'') False \<in>
     set (new_events demo_patchy (snd (update_routes ''i-1'' ''i-2'' ''10.0.0.10/32'' demo_patchy))) \<and>
   (\<exists>w'. update_routes ''i-1'' ''i-2'' ''10.0.0.10/32'' demo_patchy = (Inr (), w') \<and>
         api_calls (new_events (snd (route_table_ids ''i-1'' ''i-2'' demo_patchy)) w') =
           [DeleteRoute ''rt-1'' ''10.0.0.10/32'', CreateRoute ''rt-1'' ''10.0.0.10/32'' ''i-2'',
            DeleteRoute ''rt-2'' ''10.0.0.10/32'', CreateRoute ''rt-2'' ''10.0.0.10/32'' ''i-2''])"
proof -
  have "\<exists>w'. update_routes ''i-1'' ''i-2'' ''10.0.0.10/32'' demo_patchy = (Inr (), w') \<and>
         api_calls (new_events (snd (route_table_ids ''i-1'' ''i-2'' demo_patchy)) w') =
           [DeleteRoute ''rt-1'' ''10.0.0.10/32'', CreateRoute ''rt-1'' ''10.0.0.10/32'' ''i-2'',
            DeleteRoute ''rt-2'' ''10.0.0.10/32'', CreateRoute ''rt-2'' ''10.0.0.10/32'' ''i-2'']"
    using every_table_is_processed [OF demo_patchy_ids, of "''10.0.0.10/32''"]
    by (simp add: demo_patchy_ids)
  then show ?thesis
    by (simp add: demo_patchy_ids demo_patchy_run)
qed

section \<open>Route reconciliation on every table\<close>

subsection \<open>Tables\<close>

lemma remove_route_id [simp]:
  "rt_RouteTableId (remove_route a c t) = rt_RouteTableId t"
  "rt_VpcId (remove_route a c t) = rt_VpcId t"
  by (simp_all add: remove_route_def)

lemma add_route_id [simp]:
  "rt_RouteTableId (add_route a c n t) = rt_RouteTableId t"
  "rt_VpcId (add_route a c n t) = rt_VpcId t"
  by (simp_all add: add_route_def)

lemma tables_named_map:
  assumes "\<And>t. rt_RouteTableId (f t) = rt_RouteTableId t"
  shows "tables_named a (map f ts) = map f (tables_named a ts)"
  by (induction ts) (simp_all add: tables_named_def assms)

lemma has_route_remove [simp]:
  "has_route c (remove_route a c t) = (rt_RouteTableId t \<noteq> a \<and> has_route c t)"
  by (auto simp: has_route_def remove_route_def)

lemma has_route_add [simp]:
  "has_route c (add_route a c n t) = (rt_RouteTableId t = a \<or> has_route c t)"
  by (auto simp: has_route_def add_route_def)

lemma named_has_remove:
  "list_ex (has_route c) (tables_named a (map (remove_route b c) ts)) =
     (a \<noteq> b \<and> list_ex (has_route c) (tables_named a ts))"
  by (auto simp: tables_named_map list_ex_iff tables_named_def)

lemma named_has_add:
  "list_ex (has_route c) (tables_named a (map (add_route b c n) ts)) =
     (if a = b then tables_named a ts \<noteq> [] else list_ex (has_route c) (tables_named a ts))"
  by (auto simp: tables_named_map list_ex_iff tables_named_def filter_empty_conv)

lemma named_empty_map:
  assumes "\<And>t. rt_RouteTableId (f t) = rt_RouteTableId t"
  shows "(tables_named a (map f ts) = []) = (tables_named a ts = [])"
  by (simp add: tables_named_map assms)

lemma delete_route_effect:
  "route_tables (snd (delete_route rt c w)) =
     (if deletes (fault w) rt c (route_tables w) then map (remove_route rt c) (route_tables w)
      else route_tables w)"
  "instances (snd (delete_route rt c w)) = instances w"
  "subnets (snd (delete_route rt c w)) = subnets w"
  "fault (snd (delete_route rt c w)) = fault w"
  by (simp_all add: delete_route_def raises_def returns_def emit_def Let_def deletes_def
               split: option.splits)

lemma create_route_effect:
  "route_tables (snd (create_route rt c n w)) =
     (if fault w (CreateRoute rt c n) = None \<and> map_of (instances w) n \<noteq> None \<and>
         tables_named rt (route_tables w) \<noteq> [] \<and>
         \<not> list_ex (has_route c) (tables_named rt (route_tables w))
      then map (add_route rt c n) (route_tables w)
      else route_tables w)"
  "instances (snd (create_route rt c n w)) = instances w"
  "subnets (snd (create_route rt c n w)) = subnets w"
  "fault (snd (create_route rt c n w)) = fault w"
  by (auto simp: create_route_def raises_def returns_def emit_def Let_def
           split: option.splits)

lemma replace_route_tables:
  "route_tables (replace_route rt new c w) =
     table_step (fault w) (map_of (instances w) new \<noteq> None) rt c new (route_tables w)"
proof (cases "deletes (fault w) rt c (route_tables w)")
  case True
  then show ?thesis
    by (simp add: replace_route_def create_route_effect delete_route_effect table_step_def
                  creates_def named_has_remove named_empty_map)
next
  case False
  then show ?thesis
    by (simp add: replace_route_def create_route_effect delete_route_effect table_step_def
                  creates_def)
qed

lemma replace_route_frame:
  "instances (replace_route rt new c w) = instances w"
  "subnets (replace_route rt new c w) = subnets w"
  "fault (replace_route rt new c w) = fault w"
  by (simp_all add: replace_route_def create_route_effect delete_route_effect)

lemma update_loop_frame:
  "instances (update_loop rts new c w) = instances w \<and>
   subnets (update_loop rts new c w) = subnets w \<and>
   fault (update_loop rts new c w) = fault w"
  by (induction rts arbitrary: w) (simp_all add: replace_route_frame)

lemma update_loop_tables:
  "route_tables (update_loop rts new c w) =
     table_loop (fault w) (map_of (instances w) new \<noteq> None) rts c new (route_tables w)"
  by (induction rts arbitrary: w)
     (simp_all add: table_loop_def replace_route_tables replace_route_frame)

lemma table_step_keys: "map table_key (table_step flt k a c n ts) = map table_key ts"
  by (simp add: table_step_def table_key_def)

lemma table_loop_keys: "map table_key (table_loop flt k rts c n ts) = map table_key ts"
  unfolding table_loop_def
  by (induction rts arbitrary: ts) (simp_all add: table_step_keys)


subsection \<open>Tables that end up settled\<close>

lemma failed_creates_append [simp]:
  "failed_creates (xs @ ys) = failed_creates xs @ failed_creates ys"
  by (induction xs rule: failed_creates.induct) auto

lemma failed_creates_create [simp]:
  "failed_creates (Api (CreateRoute rt c n) b # es) =
     (if b then failed_creates es else rt # failed_creates es)"
  by (cases b) simp_all

lemma create_route_event:
  "trace (snd (create_route rt c n w)) =
     trace w @ [Api (CreateRoute rt c n)
                  (fault w (CreateRoute rt c n) = None \<and> map_of (instances w) n \<noteq> None \<and>
                   tables_named rt (route_tables w) \<noteq> [] \<and>
                   \<not> list_ex (has_route c) (tables_named rt (route_tables w)))]"
  by (auto simp: create_route_def raises_def returns_def emit_def Let_def split: option.splits)

lemma replace_route_event:
  "\<exists>ok. trace (replace_route rt new c w) =
     trace w @ [Api (DeleteRoute rt c) ok,
                Api (CreateRoute rt c new)
                  (creates (fault w) (map_of (instances w) new \<noteq> None) rt c new (route_tables w))]"
proof -
  obtain ok where d: "trace (snd (delete_route rt c w)) = trace w @ [Api (DeleteRoute rt c) ok]"
    using api_traces(9) by blast
  have "(fault w (CreateRoute rt c new) = None \<and> map_of (instances w) new \<noteq> None \<and>
         tables_named rt (route_tables (snd (delete_route rt c w))) \<noteq> [] \<and>
         \<not> list_ex (has_route c) (tables_named rt (route_tables (snd (delete_route rt c w))))) =
        creates (fault w) (map_of (instances w) new \<noteq> None) rt c new (route_tables w)"
    by (auto simp: delete_route_effect creates_def named_has_remove named_empty_map)
  then show ?thesis
    using d by (simp add: replace_route_def create_route_event delete_route_effect)
qed

lemma table_step_settles:
  assumes "creates flt k a c n ts" and "t \<in> set (table_step flt k a c n ts)"
    and "rt_RouteTableId t = a"
  shows "settled c n t"
proof -
  from assms(2) obtain t0 where t0: "t0 \<in> set ts"
    and t: "t = ((if creates flt k a c n ts then add_route a c n else id) \<circ>
                 (if deletes flt a c ts then remove_route a c else id)) t0"
    by (auto simp: table_step_def)
  have named: "rt_RouteTableId t0 = a"
    using t assms(3) by (auto split: if_splits)
  show ?thesis
  proof (cases "deletes flt a c ts")
    case True
    with t assms(1) named show ?thesis
      by (simp add: settled_def add_route_def remove_route_def)
  next
    case False
    with assms(1) have "\<not> list_ex (has_route c) (tables_named a ts)"
      by (simp add: creates_def)
    with t0 named have "filter (\<lambda>r. r_DestinationCidrBlock r = c) (rt_Routes t0) = []"
      by (auto simp: list_ex_iff tables_named_def has_route_def filter_empty_conv)
    with t assms(1) named False show ?thesis
      by (simp add: settled_def add_route_def)
  qed
qed

lemma table_step_other:
  assumes "b \<noteq> a"
  shows "tables_named b (table_step flt k a c n ts) = tables_named b ts"
proof -
  let ?F = "(if creates flt k a c n ts then add_route a c n else id) \<circ>
            (if deletes flt a c ts then remove_route a c else id)"
  have id: "rt_RouteTableId (?F t) = rt_RouteTableId t" for t
    by simp
  have "map ?F (tables_named b ts) = tables_named b ts"
    using assms by (intro map_idI) (auto simp: tables_named_def add_route_def remove_route_def)
  then show ?thesis
    unfolding table_step_def using tables_named_map [of ?F b ts, OF id] by simp
qed

lemma table_loop_other:
  "b \<notin> set rts \<Longrightarrow> tables_named b (table_loop flt k rts c n ts) = tables_named b ts"
  unfolding table_loop_def
  by (induction rts arbitrary: ts) (auto simp: table_step_other)

lemma update_loop_grows: "\<exists>evs. trace (update_loop rts new c w) = trace w @ evs"
  using update_loop_calls by blast

lemma update_loop_settles:
  assumes "failed_creates (new_events w (update_loop rts new c w)) = []"
    and "t \<in> set (route_tables (update_loop rts new c w))"
    and "rt_RouteTableId t \<in> set rts"
  shows "settled c new t"
  using assms
proof (induction rts arbitrary: w)
  case Nil
  then show ?case by simp
next
  case (Cons rt rts)
  let ?w1 = "replace_route rt new c w"
  let ?k = "map_of (instances w) new \<noteq> None"
  obtain ok where one: "trace ?w1 = trace w @ [Api (DeleteRoute rt c) ok,
      Api (CreateRoute rt c new) (creates (fault w) ?k rt c new (route_tables w))]"
    using replace_route_event by blast
  obtain evs where rest: "trace (update_loop rts new c ?w1) = trace ?w1 @ evs"
    using update_loop_grows by blast
  have ev: "new_events w (update_loop (rt # rts) new c w) =
      [Api (DeleteRoute rt c) ok,
       Api (CreateRoute rt c new) (creates (fault w) ?k rt c new (route_tables w))] @
      new_events ?w1 (update_loop rts new c ?w1)"
    by (simp add: new_events_def rest one)
  with Cons.prems(1) have created: "creates (fault w) ?k rt c new (route_tables w)"
    and quiet: "failed_creates (new_events ?w1 (update_loop rts new c ?w1)) = []"
    by (auto split: if_splits)
  show ?case
  proof (cases "rt_RouteTableId t \<in> set rts")
    case True
    with Cons.IH [OF quiet] Cons.prems(2) show ?thesis
      by simp
  next
    case False
    with Cons.prems(3) have named: "rt_RouteTableId t = rt"
      by simp
    with Cons.prems(2) have "t \<in> set (tables_named rt (route_tables (update_loop rts new c ?w1)))"
      by (simp add: tables_named_def)
    also have "tables_named rt (route_tables (update_loop rts new c ?w1)) =
        tables_named rt (route_tables ?w1)"
      using False named by (simp add: update_loop_tables table_loop_other)
    finally have "t \<in> set (table_step (fault w) ?k rt c new (route_tables w))"
      by (simp add: replace_route_tables tables_named_def)
    from table_step_settles [OF created this named] show ?thesis .
  qed
qed


subsection \<open>Reading the setup\<close>

lemma only_trace_refl [simp]: "only_trace w w"
  by (auto simp: only_trace_def intro: exI [of _ "trace w"])

lemma only_trace_trans: "only_trace w w1 \<Longrightarrow> only_trace w1 w2 \<Longrightarrow> only_trace w w2"
  by (auto simp: only_trace_def)

lemma only_trace_emit [simp]: "only_trace w (emit e w)"
  by (auto simp: only_trace_def emit_def)

lemma only_trace_fields:
  assumes "only_trace w w'"
  shows "instances w' = instances w" "subnets w' = subnets w" "fault w' = fault w"
    "route_tables w' = route_tables w" "availability_zones w' = availability_zones w"
  using assms by (auto simp: only_trace_def)

lemma only_trace_describe:
  "only_trace w (snd (describe_instances i w))"
  "only_trace w (snd (describe_subnets ids fs w))"
  "only_trace w (snd (describe_route_tables fs w))"
  "only_trace w (snd (describe_availability_zones w))"
  using describe_keeps(1) [of i w] describe_keeps(2) [of ids fs w] describe_keeps(3) [of fs w]
    describe_keeps(4) [of w]
  by auto

lemma only_trace_get_instance_info: "only_trace w (snd (get_instance_info i w))"
  using get_instance_info_keeps [of i w] by auto

lemma only_trace_then_do:
  assumes "only_trace w (snd m)" and "\<And>x w1. m = (Inr x, w1) \<Longrightarrow> only_trace w1 (snd (f x w1))"
  shows "only_trace w (snd (then_do m f))"
proof (cases m)
  case (Pair r w1)
  then show ?thesis
    using assms by (cases r) (auto intro: only_trace_trans)
qed

lemma only_trace_routes_subnet: "only_trace w (snd (routes_subnet old new w))"
proof -
  obtain r1 w1 where one: "get_instance_info old w = (r1, w1)"
    by (cases "get_instance_info old w")
  obtain r2 w2 where two: "get_instance_info new w1 = (r2, w2)"
    by (cases "get_instance_info new w1")
  have "only_trace w w1" "only_trace w1 w2"
    using only_trace_get_instance_info [of w old] only_trace_get_instance_info [of w1 new]
    by (simp_all add: one two)
  then show ?thesis
    by (auto simp: routes_subnet_def one two split: option.splits intro: only_trace_trans)
qed

lemma only_trace_get_route_tables: "only_trace w (snd (get_route_tables s w))"
  unfolding get_route_tables_def
  by (intro only_trace_then_do only_trace_describe)
     (auto split: list.splits intro!: only_trace_then_do only_trace_describe)

lemma only_trace_route_table_ids: "only_trace w (snd (route_table_ids old new w))"
  unfolding route_table_ids_def
  by (intro only_trace_then_do only_trace_routes_subnet only_trace_get_route_tables)

text \<open>The read-only functions add describe calls only.\<close>

lemma describes_get_instance_info:
  assumes "on_describe P"
  shows "adds_only P w (snd (get_instance_info i w))"
proof -
  have "snd (get_instance_info i w) = snd (describe_instances i w)"
    by (cases "describe_instances i w"; cases "fst (describe_instances i w)")
       (auto simp: get_instance_info_def lookup_instance_def split: sum.splits)
  then show ?thesis
    by (simp add: describes_api assms)
qed

lemma describes_routes_subnet:
  assumes "on_describe P"
  shows "adds_only P w (snd (routes_subnet old new w))"
proof -
  obtain r1 w1 where one: "get_instance_info old w = (r1, w1)"
    by (cases "get_instance_info old w")
  obtain r2 w2 where two: "get_instance_info new w1 = (r2, w2)"
    by (cases "get_instance_info new w1")
  have "adds_only P w w1" "adds_only P w1 w2"
    using describes_get_instance_info [OF assms, of w old]
      describes_get_instance_info [OF assms, of w1 new]
    by (simp_all add: one two)
  then show ?thesis
    by (auto simp: routes_subnet_def one two split: option.splits intro: adds_only_trans)
qed

lemma describes_get_route_tables:
  assumes "on_describe P"
  shows "adds_only P w (snd (get_route_tables s w))"
  unfolding get_route_tables_def
  by (intro adds_only_then_do describes_api assms)
     (auto split: list.splits intro!: adds_only_then_do describes_api assms)

lemma describes_route_table_ids:
  assumes "on_describe P"
  shows "adds_only P w (snd (route_table_ids old new w))"
  unfolding route_table_ids_def
  by (intro adds_only_then_do describes_routes_subnet describes_get_route_tables assms)

lemma describe_route_tables_result:
  "describe_route_tables fs w = (Inr found, w1) \<Longrightarrow>
     found = filter (\<lambda>t. list_all (route_table_matches t) fs) (route_tables w)"
  by (auto simp: describe_route_tables_def raises_def returns_def Let_def split: option.splits)

lemma get_route_tables_result:
  assumes "get_route_tables sid w = (Inr rts, w1)"
  shows "\<exists>s \<in> set (subnets w). s_SubnetId s = sid \<and>
           rts = map rt_RouteTableId (filter (\<lambda>t. rt_VpcId t = s_VpcId s) (route_tables w))"
proof -
  from assms obtain found wa where a: "describe_subnets [sid] [] w = (Inr found, wa)"
    by (auto simp: get_route_tables_def then_do_eq_Inr)
  with assms obtain s rest where f: "found = s # rest"
    by (cases found) (auto simp: get_route_tables_def)
  from assms a f obtain tables wb
    where b: "describe_route_tables [VpcIdFilter [s_VpcId s]] wa = (Inr tables, wb)"
      and rts: "rts = map rt_RouteTableId tables"
    by (auto simp: get_route_tables_def then_do_eq_Inr)
  have "s \<in> set found"
    by (simp add: f)
  with describe_subnets_result [OF a] have s: "s \<in> set (subnets w)" "s_SubnetId s = sid"
    by auto
  have "route_tables wa = route_tables w"
    using only_trace_fields(4) [OF only_trace_describe(2) [of w "[sid]" "[]"]] a by simp
  with describe_route_tables_result [OF b]
  have "tables = filter (\<lambda>t. rt_VpcId t = s_VpcId s) (route_tables w)"
    by simp
  with s rts show ?thesis
    by blast
qed

lemma route_table_ids_result:
  assumes "route_table_ids old new w = (Inr rts, w1)"
  shows "\<exists>sid. fst (routes_subnet old new w) = Inr sid \<and>
           (\<exists>s \<in> set (subnets w). s_SubnetId s = sid \<and>
              rts = map rt_RouteTableId (filter (\<lambda>t. rt_VpcId t = s_VpcId s) (route_tables w)))"
proof -
  from assms obtain sid wa where a: "routes_subnet old new w = (Inr sid, wa)"
    and b: "get_route_tables sid wa = (Inr rts, w1)"
    by (auto simp: route_table_ids_def then_do_eq_Inr)
  have "only_trace w wa"
    using only_trace_routes_subnet [of w old new] a by simp
  from only_trace_fields [OF this] get_route_tables_result [OF b] a show ?thesis
    by auto
qed

lemma failed_creates_describe [simp]:
  "is_describe c \<Longrightarrow> failed_creates (Api c ok # evs) = failed_creates evs"
  by (cases c) simp_all

lemma failed_creates_describes:
  "list_all (\<lambda>e. \<exists>c ok. e = Api c ok \<and> is_describe c) evs \<Longrightarrow> failed_creates evs = []"
  by (induction evs) auto

text \<open>
  C5. When \<^verbatim>\<open>update_routes\<close> has enumerated the route tables of the VPC (the VPC of the
  subnet of the old instance, or of the new one) and none of its \<^verbatim>\<open>create_route\<close>
  calls raised, every route table of that VPC has exactly one route to the destination
  afterwards, pointing at the new instance; the tables themselves are the ones there
  were. This holds whatever the tables held before, so in particular when each held a
  stale route.
\<close>

theorem reconcile_settles_every_table:
  assumes ids: "route_table_ids old new w = (Inr rts, w1)"
    and clean: "failed_creates (new_events w (snd (update_routes old new c w))) = []"
  shows "\<exists>sid. fst (routes_subnet old new w) = Inr sid \<and>
           (\<exists>s \<in> set (subnets w). s_SubnetId s = sid \<and>
              (\<forall>t \<in> set (route_tables (snd (update_routes old new c w))).
                 rt_VpcId t = s_VpcId s \<longrightarrow> settled c new t)) \<and>
           map table_key (route_tables (snd (update_routes old new c w))) =
             map table_key (route_tables w)"
proof -
  let ?D = "\<lambda>e. \<exists>c ok. e = Api c ok \<and> is_describe c"
  define w' where "w' = update_loop rts new c w1"
  have run: "snd (update_routes old new c w) = w'"
    by (simp add: update_routes_def ids w'_def)
  have "adds_only ?D w w1"
    using describes_route_table_ids [OF on_describe_describes, of w old new] ids by simp
  then obtain e1 where e1: "trace w1 = trace w @ e1" "list_all ?D e1"
    by (elim adds_onlyE)
  obtain e2 where e2: "trace w' = trace w1 @ e2"
    unfolding w'_def using update_loop_grows by blast
  have "new_events w w' = e1 @ e2" "new_events w1 w' = e2"
    using e1 e2 by (simp_all add: new_events_def)
  with clean e1 have quiet: "failed_creates (new_events w1 (update_loop rts new c w1)) = []"
    by (simp add: run failed_creates_describes flip: w'_def)
  have same: "route_tables w1 = route_tables w" "instances w1 = instances w" "fault w1 = fault w"
    using only_trace_fields [OF only_trace_route_table_ids [of w old new]] ids by simp_all
  have keys: "map table_key (route_tables w') = map table_key (route_tables w)"
    by (simp add: w'_def update_loop_tables table_loop_keys same)
  from route_table_ids_result [OF ids] obtain sid s
    where sid: "fst (routes_subnet old new w) = Inr sid"
      and s: "s \<in> set (subnets w)" "s_SubnetId s = sid"
      and rts: "rts = map rt_RouteTableId (filter (\<lambda>t. rt_VpcId t = s_VpcId s) (route_tables w))"
    by blast
  have "settled c new t" if t: "t \<in> set (route_tables w')" and v: "rt_VpcId t = s_VpcId s" for t
  proof -
    from t have "table_key t \<in> set (map table_key (route_tables w))"
      using keys by (metis image_eqI set_map)
    then obtain t0 where "t0 \<in> set (route_tables w)" "table_key t0 = table_key t"
      by auto
    with v have "t0 \<in> set (filter (\<lambda>t. rt_VpcId t = s_VpcId s) (route_tables w))"
      and "rt_RouteTableId t0 = rt_RouteTableId t"
      by (simp_all add: table_key_def)
    then have "rt_RouteTableId t \<in> set rts"
      unfolding rts set_map by (metis image_eqI)
    from update_loop_settles [OF quiet t [unfolded w'_def] this] show ?thesis .
  qed
  with sid s keys show ?thesis
    unfolding run by blast
qed


text \<open>
  In \<open>demo_launched\<close> both tables of the VPC hold the stale route to \<^verbatim>\<open>i-1\<close>, and both
  are settled on \<^verbatim>\<open>i-2\<close> afterwards.
\<close>

lemma demo_launched_ids:
  "route_table_ids ''i-1'' ''i-2'' demo_launched =
     (Inr [''rt-1'', ''rt-2''],
      demo_launched\<lparr>trace :=
        [Api (DescribeInstances [''i-1'']) True, Api (DescribeSubnets [''s-a''] []) True,
         Api (DescribeRouteTables [VpcIdFilter [''v'']]) True]\<rparr>)"
  by (simp add: api_defs py_defs demo_launched_def demo_world_def demo_instance_def Let_def)

lemma demo_launched_run:
  "new_events demo_launched (snd (update_routes ''i-1'' ''i-2'' ''10.0.0.10/32'' demo_launched)) =
     [Api (DescribeInstances [''i-1'']) True, Api (DescribeSubnets [''s-a''] []) True,
      Api (DescribeRouteTables [VpcIdFilter [''v'']]) True,
      Api (DeleteRoute ''rt-1'' ''10.0.0.10/32'') True,
      Api (CreateRoute ''rt-1'' ''10.0.0.10/32'' ''i-2'') True,
      Api (DeleteRoute ''rt-2'' ''10.0.0.10/32'') True,
      Api (CreateRoute ''rt-2'' ''10.0.0.10/32'' ''i-2'') True]"
  by (simp add: api_defs py_defs demo_launched_def demo_world_def demo_instance_def Let_def
                new_events_def has_route_def tables_named_def remove_route_def add_route_def)

lemma demo_launched_setup:
  "fst (routes_subnet ''i-1'' ''i-2'' demo_launched) = Inr ''s-a''"
  "map table_key (route_tables demo_launched) = [(''rt-1'', ''v''), (''rt-2'', ''v'')]"
  "list_all (has_route ''10.0.0.10/32'') (route_tables demo_launched)"
  "\<forall>s \<in> set (subnets demo_launched). s_VpcId s = ''v''"
  by (simp_all add: api_defs py_defs demo_launched_def demo_world_def demo_instance_def Let_def
                    table_key_def has_route_def)

theorem reconcile_settles_every_table_witness:
  "fst (route_table_ids ''i-1'' ''i-2'' demo_launched) = Inr [''rt-1'', ''rt-2''] \<and>
   list_all (has_route ''10.0.0.10/32'') (route_tables demo_launched) \<and>
   failed_creates (new_events demo_launched
     (snd (update_routes ''i-1'' ''i-2'' ''10.0.0.10/32'' demo_launched))) = [] \<and>
   length (route_tables (snd (update_routes ''i-1'' ''i-2'' ''10.0.0.10/32'' demo_launched))) = 2 \<and>
   list_all (settled ''10.0.0.10/32'' ''i-2'')
     (route_tables (snd (update_routes ''i-1'' ''i-2'' ''10.0.0.10/32'' demo_launched)))"
proof -
  let ?w' = "snd (update_routes ''i-1'' ''i-2'' ''10.0.0.10/32'' demo_launched)"
  have clean: "failed_creates (new_events demo_launched ?w') = []"
    by (simp add: demo_launched_run)
  from reconcile_settles_every_table [OF demo_launched_ids clean]
  obtain s where s: "s \<in> set (subnets demo_launched)"
    and all: "\<forall>t \<in> set (route_tables ?w'). rt_VpcId t = s_VpcId s \<longrightarrow> settled ''10.0.0.10/32'' ''i-2'' t"
    and keys: "map table_key (route_tables ?w') = map table_key (route_tables demo_launched)"
    by blast
  have v: "s_VpcId s = ''v''"
    using s demo_launched_setup(4) by blast
  have "rt_VpcId t = ''v''" if "t \<in> set (route_tables ?w')" for t
  proof -
    from that have "table_key t \<in> set (map table_key (route_tables ?w'))"
      by simp
    then show ?thesis
      unfolding keys demo_launched_setup(2) by (auto simp: table_key_def)
  qed
  with all v have "list_all (settled ''10.0.0.10/32'' ''i-2'') (route_tables ?w')"
    by (simp add: list_all_iff)
  moreover have "length (route_tables ?w') = 2"
    using arg_cong [OF keys, of length] by (simp add: demo_launched_setup(2))
  ultimately show ?thesis
    using clean demo_launched_setup(3) by (simp add: demo_launched_ids)
qed

section \<open>Route reconciliation, repeated\<close>

subsection \<open>One turn of the loop, twice\<close>

lemma remove_add_route [simp]: "remove_route a c (add_route a c n t) = remove_route a c t"
  by (simp add: remove_route_def add_route_def)

lemma remove_remove_route [simp]: "remove_route a c (remove_route a c t) = remove_route a c t"
  by (simp add: remove_route_def)

lemma remove_route_without:
  assumes "\<not> list_ex (has_route c) (tables_named a ts)"
  shows "map (remove_route a c) ts = ts"
proof (rule map_idI)
  fix t assume "t \<in> set ts"
  with assms have "rt_RouteTableId t = a \<Longrightarrow> \<not> has_route c t"
    by (auto simp: list_ex_iff tables_named_def)
  then have "rt_RouteTableId t = a \<Longrightarrow>
      filter (\<lambda>r. r_DestinationCidrBlock r \<noteq> c) (rt_Routes t) = rt_Routes t"
    by (auto simp: has_route_def filter_id_conv)
  then show "remove_route a c t = t"
    by (simp add: remove_route_def)
qed

lemma named_empty_remove:
  "(tables_named a (map (remove_route b c) ts) = []) = (tables_named a ts = [])"
  by (simp add: tables_named_map)

lemma table_step_flags_same:
  "tables_named a (table_step flt k a c n ts) \<noteq> [] \<longleftrightarrow> tables_named a ts \<noteq> []"
  "list_ex (has_route c) (tables_named a (table_step flt k a c n ts)) =
     (if creates flt k a c n ts then True
      else if deletes flt a c ts then False
      else list_ex (has_route c) (tables_named a ts))"
proof -
  show "tables_named a (table_step flt k a c n ts) \<noteq> [] \<longleftrightarrow> tables_named a ts \<noteq> []"
    by (simp add: table_step_def tables_named_map)
  have e: "tables_named a ts \<noteq> []" if "creates flt k a c n ts"
    using that by (simp add: creates_def)
  show "list_ex (has_route c) (tables_named a (table_step flt k a c n ts)) =
     (if creates flt k a c n ts then True
      else if deletes flt a c ts then False
      else list_ex (has_route c) (tables_named a ts))"
    using e
    by (auto simp: table_step_def named_has_add named_has_remove named_empty_remove
             simp flip: map_map)
qed

lemma table_step_idem:
  "table_step flt k a c n (table_step flt k a c n ts) = table_step flt k a c n ts"
proof (cases "creates flt k a c n ts")
  case True
  note created = this
  let ?ts' = "table_step flt k a c n ts"
  have flags: "flt (CreateRoute a c n) = None" "k" "tables_named a ts \<noteq> []"
    using True by (simp_all add: creates_def)
  show ?thesis
  proof (cases "flt (DeleteRoute a c) = None")
    case True
    then have d': "deletes flt a c ?ts'" "creates flt k a c n ?ts'"
      using created flags by (simp_all add: deletes_def creates_def table_step_flags_same)
    have "map (remove_route a c) ?ts' = map (remove_route a c) ts"
      using created by (simp add: table_step_def)
    moreover have "map (remove_route a c) ts = ts" if "\<not> deletes flt a c ts"
      using that True by (intro remove_route_without) (simp add: deletes_def)
    ultimately have "map (add_route a c n) (map (remove_route a c) ?ts') = ?ts'"
      using created by (cases "deletes flt a c ts") (simp_all add: table_step_def)
    then show ?thesis
      using d' by (subst table_step_def) simp
  next
    case False
    then have "\<not> deletes flt a c ?ts'" "\<not> creates flt k a c n ?ts'"
      using created by (simp_all add: deletes_def creates_def table_step_flags_same)
    then show ?thesis
      by (subst table_step_def) simp
  qed
next
  case False
  note not_created = this
  show ?thesis
  proof (cases "deletes flt a c ts")
    case True
    let ?ts' = "table_step flt k a c n ts"
    have "\<not> deletes flt a c ?ts'"
      using True not_created by (simp add: deletes_def table_step_flags_same)
    moreover have "\<not> creates flt k a c n ?ts'"
      using True not_created by (auto simp: creates_def table_step_flags_same)
    ultimately show ?thesis
      by (subst table_step_def) simp
  next
    case False
    then have "table_step flt k a c n ts = ts"
      using not_created by (simp add: table_step_def)
    then show ?thesis
      by simp
  qed
qed

lemma table_step_flags_other:
  assumes "b \<noteq> a"
  shows "deletes flt b c (table_step flt k a c n ts) = deletes flt b c ts"
    and "creates flt k b c n (table_step flt k a c n ts) = creates flt k b c n ts"
  using assms by (simp_all add: deletes_def creates_def table_step_other)

lemma step_fun_commute:
  assumes "a \<noteq> b"
    and fa: "\<And>t. rt_RouteTableId (f t) = rt_RouteTableId t" "\<And>t. rt_RouteTableId t \<noteq> a \<Longrightarrow> f t = t"
    and fb: "\<And>t. rt_RouteTableId (g t) = rt_RouteTableId t" "\<And>t. rt_RouteTableId t \<noteq> b \<Longrightarrow> g t = t"
  shows "f (g t) = g (f t)"
proof (cases "rt_RouteTableId t = a")
  case True
  with assms(1) have "g t = t" "g (f t) = f t"
    using fa fb by simp_all
  then show ?thesis by simp
next
  case False
  then have "f t = t" "f (g t) = g t"
    using fa fb by simp_all
  then show ?thesis by simp
qed

lemma table_step_commute:
  "table_step flt k a c n (table_step flt k b c n ts) =
   table_step flt k b c n (table_step flt k a c n ts)"
proof (cases "a = b")
  case True
  then show ?thesis by simp
next
  case False
  let ?F = "\<lambda>x. (if creates flt k x c n ts then add_route x c n else id) \<circ>
                 (if deletes flt x c ts then remove_route x c else id)"
  have props: "rt_RouteTableId (?F x t) = rt_RouteTableId t"
    "rt_RouteTableId t \<noteq> x \<Longrightarrow> ?F x t = t" for x t
    by (simp_all add: add_route_def remove_route_def)
  have one: "table_step flt k a c n (table_step flt k b c n ts) = map (?F a \<circ> ?F b) ts"
    using False
    by (subst table_step_def) (simp add: table_step_flags_other, simp add: table_step_def)
  have two: "table_step flt k b c n (table_step flt k a c n ts) = map (?F b \<circ> ?F a) ts"
    using False
    by (subst table_step_def) (simp add: table_step_flags_other, simp add: table_step_def)
  have "(?F a \<circ> ?F b) t = (?F b \<circ> ?F a) t" for t
    unfolding comp_apply [of "?F a" "?F b"] comp_apply [of "?F b" "?F a"]
    by (rule step_fun_commute [OF False props props])
  then show ?thesis
    unfolding one two by (intro map_cong refl)
qed

lemma table_step_loop_commute:
  "table_step flt k a c n (table_loop flt k rts c n ts) =
   table_loop flt k rts c n (table_step flt k a c n ts)"
  unfolding table_loop_def
proof (induction rts arbitrary: ts)
  case Nil
  show ?case by simp
next
  case (Cons b rts)
  show ?case
    by (simp add: Cons.IH table_step_commute [of flt k a c n b])
qed

lemma table_loop_idem:
  "table_loop flt k rts c n (table_loop flt k rts c n ts) = table_loop flt k rts c n ts"
proof (induction rts arbitrary: ts)
  case Nil
  show ?case by (simp add: table_loop_def)
next
  case (Cons a rts)
  have unfold: "table_loop flt k (a # rts) c n xs = table_loop flt k rts c n (table_step flt k a c n xs)"
    for xs by (simp add: table_loop_def)
  have "table_loop flt k (a # rts) c n (table_loop flt k (a # rts) c n ts) =
        table_loop flt k rts c n
          (table_step flt k a c n (table_loop flt k rts c n (table_step flt k a c n ts)))"
    by (simp only: unfold)
  also have "\<dots> = table_loop flt k rts c n
          (table_loop flt k rts c n (table_step flt k a c n (table_step flt k a c n ts)))"
    by (simp only: table_step_loop_commute)
  also have "\<dots> = table_loop flt k rts c n (table_step flt k a c n ts)"
    by (simp only: table_step_idem Cons.IH)
  finally show ?case
    by (simp only: unfold)
qed


subsection \<open>The enumeration does not depend on the routes\<close>

lemma fst_then_do:
  "fst (then_do m f) = (case fst m of Inl e \<Rightarrow> Inl e | Inr x \<Rightarrow> fst (f x (snd m)))"
  by (cases m; cases "fst m") (auto simp: then_do_def)

lemma same_setup_refl [simp]: "same_setup w w"
  by (simp add: same_setup_def)

lemma same_setup_trans: "same_setup w w1 \<Longrightarrow> same_setup w1 w2 \<Longrightarrow> same_setup w w2"
  by (simp add: same_setup_def)

lemma only_trace_same_setup: "only_trace w w' \<Longrightarrow> same_setup w w'"
  by (auto simp: only_trace_def same_setup_def)

lemma describe_instances_cong:
  "same_setup w w' \<Longrightarrow> fst (describe_instances i w') = fst (describe_instances i w)"
  by (simp add: same_setup_def describe_instances_def raises_def returns_def Let_def
           split: option.splits)

lemma get_instance_info_fst:
  "fst (get_instance_info i w) =
     (case fst (describe_instances i w) of
        Inl e \<Rightarrow> None
      | Inr response \<Rightarrow> (case instance_info_of response of Inl e \<Rightarrow> None | Inr info \<Rightarrow> Some info))"
  by (cases "describe_instances i w"; cases "fst (describe_instances i w)")
     (auto simp: get_instance_info_def lookup_instance_def split: sum.splits)

lemma get_instance_info_cong:
  "same_setup w w' \<Longrightarrow> fst (get_instance_info i w') = fst (get_instance_info i w)"
  by (simp add: get_instance_info_fst describe_instances_cong)

lemma routes_subnet_fst:
  "fst (routes_subnet old new w) =
     (case fst (get_instance_info old w) of
        Some old_info \<Rightarrow> Inr (info_subnet_id old_info)
      | None \<Rightarrow>
          (case fst (get_instance_info new w) of
             Some new_info \<Rightarrow> Inr (info_subnet_id new_info)
           | None \<Rightarrow> Inl TypeError))"
proof -
  obtain r1 w1 where one: "get_instance_info old w = (r1, w1)"
    by (cases "get_instance_info old w")
  obtain r2 w2 where two: "get_instance_info new w1 = (r2, w2)"
    by (cases "get_instance_info new w1")
  have "same_setup w w1"
    using only_trace_get_instance_info [of w old] one by (simp add: only_trace_same_setup)
  from get_instance_info_cong [OF this, of new] have "fst (get_instance_info new w) = r2"
    by (simp add: two)
  then show ?thesis
    by (simp add: routes_subnet_def one two split: option.splits)
qed

lemma routes_subnet_cong:
  "same_setup w w' \<Longrightarrow> fst (routes_subnet old new w') = fst (routes_subnet old new w)"
  by (simp add: routes_subnet_fst get_instance_info_cong split: option.splits)

lemma describe_subnets_cong:
  "same_setup w w' \<Longrightarrow> fst (describe_subnets ids fs w') = fst (describe_subnets ids fs w)"
  by (simp add: same_setup_def describe_subnets_def raises_def returns_def Let_def
           split: option.splits)

lemma ids_by_key:
  "map rt_RouteTableId (filter (\<lambda>t. rt_VpcId t = v) ts) =
     map fst (filter (\<lambda>key. snd key = v) (map table_key ts))"
  by (induction ts) (simp_all add: table_key_def)

lemma describe_route_tables_fst:
  "fst (describe_route_tables [VpcIdFilter [v]] w) =
     (case fault w (DescribeRouteTables [VpcIdFilter [v]]) of
        Some e \<Rightarrow> Inl e
      | None \<Rightarrow> Inr (filter (\<lambda>t. rt_VpcId t = v) (route_tables w)))"
  by (simp add: describe_route_tables_def raises_def returns_def Let_def split: option.splits)

lemma get_route_tables_fst:
  "fst (get_route_tables sid w) =
     (case fst (describe_subnets [sid] [] w) of
        Inl e \<Rightarrow> Inl e
      | Inr found \<Rightarrow>
          (case found of
             [] \<Rightarrow> Inl IndexError
           | s # _ \<Rightarrow>
               (case fault w (DescribeRouteTables [VpcIdFilter [s_VpcId s]]) of
                  Some e \<Rightarrow> Inl e
                | None \<Rightarrow>
                    Inr (map fst (filter (\<lambda>key. snd key = s_VpcId s)
                                    (map table_key (route_tables w)))))))"
proof -
  have same: "fault (snd (describe_subnets [sid] [] w)) = fault w"
    "route_tables (snd (describe_subnets [sid] [] w)) = route_tables w"
    using only_trace_fields [OF only_trace_describe(2) [of w "[sid]" "[]"]] by simp_all
  show ?thesis
    unfolding get_route_tables_def fst_then_do
    by (auto simp: fst_then_do describe_route_tables_fst same ids_by_key
             split: sum.splits list.splits option.splits)
qed

lemma get_route_tables_cong:
  assumes "same_setup w w'"
  shows "fst (get_route_tables sid w') = fst (get_route_tables sid w)"
proof -
  from assms have "fault w' = fault w" "map table_key (route_tables w') = map table_key (route_tables w)"
    by (simp_all add: same_setup_def)
  then show ?thesis
    by (simp add: get_route_tables_fst describe_subnets_cong [OF assms]
             split: sum.splits list.splits option.splits)
qed

lemma route_table_ids_fst:
  "fst (route_table_ids old new w) =
     (case fst (routes_subnet old new w) of
        Inl e \<Rightarrow> Inl e
      | Inr sid \<Rightarrow> fst (get_route_tables sid w))"
proof -
  have "same_setup w (snd (routes_subnet old new w))"
    by (simp add: only_trace_same_setup only_trace_routes_subnet)
  from get_route_tables_cong [OF this] show ?thesis
    by (simp add: route_table_ids_def fst_then_do split: sum.splits)
qed

lemma route_table_ids_cong:
  "same_setup w w' \<Longrightarrow> fst (route_table_ids old new w') = fst (route_table_ids old new w)"
  by (simp add: route_table_ids_fst routes_subnet_cong get_route_tables_cong split: sum.splits)

lemma update_loop_same_setup: "same_setup w (update_loop rts new c w)"
  by (simp add: same_setup_def update_loop_frame update_loop_tables table_loop_keys)

text \<open>What \<^verbatim>\<open>update_routes\<close> leaves in the route tables.\<close>

lemma update_routes_tables:
  "route_tables (snd (update_routes old new c w)) =
     (case fst (route_table_ids old new w) of
        Inl e \<Rightarrow> route_tables w
      | Inr rts \<Rightarrow>
          table_loop (fault w) (map_of (instances w) new \<noteq> None) rts c new (route_tables w))"
proof -
  obtain r w1 where ids: "route_table_ids old new w = (r, w1)"
    by (cases "route_table_ids old new w")
  have "only_trace w w1"
    using only_trace_route_table_ids [of w old new] ids by simp
  note same = only_trace_fields [OF this]
  show ?thesis
    by (cases r) (simp_all add: update_routes_def ids update_loop_tables same)
qed

lemma update_routes_same_setup: "same_setup w (snd (update_routes old new c w))"
proof -
  obtain r w1 where ids: "route_table_ids old new w = (r, w1)"
    by (cases "route_table_ids old new w")
  have one: "same_setup w w1"
    using only_trace_route_table_ids [of w old new] ids by (simp add: only_trace_same_setup)
  show ?thesis
  proof (cases r)
    case (Inl e)
    with one show ?thesis
      by (simp add: update_routes_def ids)
  next
    case (Inr rts)
    with same_setup_trans [OF one update_loop_same_setup [of w1 rts new c]] show ?thesis
      by (simp add: update_routes_def ids)
  qed
qed

text \<open>
  C4. \<^verbatim>\<open>update_routes\<close> is idempotent on the route tables: for every world (every set
  of route tables, instances and subnets, and every fault policy) and all arguments,
  calling it a second time with the same arguments leaves the route tables as the first
  call left them. The outcome of each API call is here a function of the call, the
  resources and the policy, as the world has it.
\<close>

theorem reconcile_twice_is_once:
  "route_tables (snd (update_routes old new c (snd (update_routes old new c w)))) =
   route_tables (snd (update_routes old new c w))"
proof -
  let ?w' = "snd (update_routes old new c w)"
  have same: "same_setup w ?w'"
    by (rule update_routes_same_setup)
  then have fields: "fault ?w' = fault w" "instances ?w' = instances w"
    by (simp_all add: same_setup_def)
  have ids: "fst (route_table_ids old new ?w') = fst (route_table_ids old new w)"
    by (rule route_table_ids_cong [OF same])
  show ?thesis
  proof (cases "fst (route_table_ids old new w)")
    case (Inl e)
    then show ?thesis
      by (simp add: update_routes_tables [of old new c ?w'] ids)
  next
    case (Inr rts)
    then have "route_tables ?w' =
        table_loop (fault w) (map_of (instances w) new \<noteq> None) rts c new (route_tables w)"
      by (simp add: update_routes_tables)
    with Inr show ?thesis
      by (simp add: update_routes_tables [of old new c ?w'] ids fields table_loop_idem)
  qed
qed

text \<open>
  In \<open>demo_patchy\<close> the first call cannot create the route in the first table and
  moves the route of the second; the second call leaves both as they are.
\<close>

lemma demo_patchy_tables:
  "route_tables (snd (update_routes ''i-1'' ''i-2'' ''10.0.0.10/32'' demo_patchy)) =
     [\<lparr>rt_RouteTableId = ''rt-1'', rt_VpcId = ''v'', rt_Routes = []\<rparr>,
      \<lparr>rt_RouteTableId = ''rt-2'', rt_VpcId = ''v'',
       rt_Routes = [\<lparr>r_DestinationCidrBlock = ''10.0.0.10/32'', r_Target = ToInstance ''i-2''\<rparr>]\<rparr>]"
  by (simp add: api_defs py_defs demo_patchy_def demo_launched_def demo_world_def
                demo_instance_def Let_def
                has_route_def tables_named_def remove_route_def add_route_def)

theorem reconcile_twice_is_once_witness:
  "route_tables (snd (update_routes ''i-1'' ''i-2'' ''10.0.0.10/32''
     (snd (update_routes ''i-1'' ''i-2'' ''10.0.0.10/32'' demo_patchy)))) =
     [\<lparr>rt_RouteTableId = ''rt-1'', rt_VpcId = ''v'', rt_Routes = []\<rparr>,
      \<lparr>rt_RouteTableId = ''rt-2'', rt_VpcId = ''v'',
       rt_Routes = [\<lparr>r_DestinationCidrBlock = ''10.0.0.10/32'', r_Target = ToInstance ''i-2''\<rparr>]\<rparr>]"
  using reconcile_twice_is_once [of "''i-1''" "''i-2''" "''10.0.0.10/32''" demo_patchy]
  by (simp only: demo_patchy_tables)

end
